theory Spec2Isabelle
  imports Main "HOL-Library.Word"
begin

unbundle bit_operations_syntax

section \<open>Build-time constants (virtualmem.h)\<close>

text \<open>
  Modelled from the spec: the header virtualmem.h (\<open>NUM_PAGES\<close>, \<open>PAGE_SIZE\<close>, the type
  \<open>pte_t\<close> and the masks \<open>PAGE_RESIDENT\<close>, \<open>PAGE_ACCESSED\<close>, \<open>PAGE_DIRTY\<close>,
  \<open>PAGEPERM_MASK\<close>, \<open>PAGEPERM_NONE\<close>, \<open>PAGEPERM_READ\<close>, \<open>PAGEPERM_RDWR\<close>) is not among the
  sources. The spec fixes their shape only: a page table entry is a compact word with four
  orthogonal fields (a permission field holding one of three values, and the three single
  bits resident, accessed, dirty), \<open>PAGE_SIZE\<close> and \<open>NUM_PAGES\<close> are positive build-time
  constants. The constants are therefore a parameter \<open>c\<close> of every function below, the word
  width of \<open>pte_t\<close> is a type parameter, and \<open>consts_ok\<close> says what the spec says of them.
\<close>

record 'w vm_consts =
  NUM_PAGES :: nat
  PAGE_SIZE :: nat
  PAGE_RESIDENT :: 'w
  PAGE_ACCESSED :: 'w
  PAGE_DIRTY :: 'w
  PAGEPERM_MASK :: 'w
  PAGEPERM_NONE :: 'w
  PAGEPERM_READ :: 'w
  PAGEPERM_RDWR :: 'w

definition consts_ok :: "('a::len) word vm_consts \<Rightarrow> bool" where
  "consts_ok c \<longleftrightarrow>
     0 < NUM_PAGES c \<and> 0 < PAGE_SIZE c \<and> NUM_PAGES c * PAGE_SIZE c < 2 ^ 31 \<and>
     PAGEPERM_NONE c AND PAGEPERM_MASK c = PAGEPERM_NONE c \<and>
     PAGEPERM_READ c AND PAGEPERM_MASK c = PAGEPERM_READ c \<and>
     PAGEPERM_RDWR c AND PAGEPERM_MASK c = PAGEPERM_RDWR c \<and>
     PAGEPERM_NONE c \<noteq> PAGEPERM_READ c \<and>
     PAGEPERM_NONE c \<noteq> PAGEPERM_RDWR c \<and>
     PAGEPERM_READ c \<noteq> PAGEPERM_RDWR c \<and>
     PAGEPERM_MASK c AND PAGE_RESIDENT c = 0 \<and>
     PAGEPERM_MASK c AND PAGE_ACCESSED c = 0 \<and>
     PAGEPERM_MASK c AND PAGE_DIRTY c = 0 \<and>
     PAGE_RESIDENT c AND PAGE_ACCESSED c = 0 \<and>
     PAGE_RESIDENT c AND PAGE_DIRTY c = 0 \<and>
     PAGE_ACCESSED c AND PAGE_DIRTY c = 0 \<and>
     PAGE_RESIDENT c \<noteq> 0 \<and> PAGE_ACCESSED c \<noteq> 0 \<and> PAGE_DIRTY c \<noteq> 0"

text \<open>A small instance, used to run the model on concrete inputs: four pages of two bytes.\<close>

definition small_consts :: "8 word vm_consts" where
  "small_consts =
     \<lparr>NUM_PAGES = 4, PAGE_SIZE = 2, PAGE_RESIDENT = 4, PAGE_ACCESSED = 8, PAGE_DIRTY = 16,
      PAGEPERM_MASK = 3, PAGEPERM_NONE = 0, PAGEPERM_READ = 1, PAGEPERM_RDWR = 3\<rparr>"

section \<open>Fatal ends, and the operating system the pager runs on\<close>

text \<open>
  Every way the C code leaves a function without returning is a value: \<open>abort()\<close> after a
  diagnostic, a failed \<open>assert\<close>, \<open>exit(n)\<close>, and the dereference of a null or freed pointer
  (undefined behaviour in C).
\<close>

datatype fatal = Abort | AssertFailed | Exit int | BadPointer

definition ebind :: "'e + 'a \<Rightarrow> ('a \<Rightarrow> 'e + 'b) \<Rightarrow> 'e + 'b" where
  "ebind m f = (case m of Inl e \<Rightarrow> Inl e | Inr x \<Rightarrow> f x)"

type_synonym byte = "8 word"

datatype mmap_result = MmapOk | MmapFailed | MmapElsewhere

text \<open>
  What the operating system answers during one handler run. The default answers are those of
  \<open>ok_env\<close>; every other value makes a system call fail the way the code checks for.
\<close>

record os_env =
  malloc_null :: bool
  mprotect_fails :: bool
  mmap_outcome :: mmap_result
  lseek_fails :: bool
  read_inject :: "int option"
  write_inject :: "int option"
  munmap_fails :: bool
  open_fails :: bool
  existing_swap :: "byte list"
  unlink_fails :: bool
  sigaction_fails :: bool
  setitimer_fails :: bool

definition ok_env :: os_env where
  "ok_env =
     \<lparr>malloc_null = False, mprotect_fails = False, mmap_outcome = MmapOk,
      lseek_fails = False, read_inject = None, write_inject = None, munmap_fails = False,
      open_fails = False, existing_swap = [], unlink_fails = False,
      sigaction_fails = False, setitimer_fails = False\<rparr>"

definition PROT_NONE :: int where "PROT_NONE = 0"
definition PROT_READ :: int where "PROT_READ = 1"
definition PROT_WRITE :: int where "PROT_WRITE = 2"
definition SEGV_MAPERR :: int where "SEGV_MAPERR = 1"
definition SEGV_ACCERR :: int where "SEGV_ACCERR = 2"
definition VIRTUALMEM_ADDR_START :: nat where "VIRTUALMEM_ADDR_START = 0x20000000"

datatype io_op = SwapRead nat nat | SwapWrite nat nat

text \<open>
  The address space is a map from the start address of a mapped page to its protection and
  its bytes; the pager only ever maps, protects and unmaps whole pages at \<open>page_to_addr\<close>.
  \<open>mprotect\<close> fails on an address that is not mapped. A file is a byte list; writing past its
  end fills the hole with zeros.
\<close>

type_synonym addr_space = "nat \<Rightarrow> (int \<times> byte list) option"

definition sys_mprotect :: "os_env \<Rightarrow> addr_space \<Rightarrow> nat \<Rightarrow> int \<Rightarrow> addr_space option" where
  "sys_mprotect env m addr prot =
     (if mprotect_fails env then None
      else case m addr of None \<Rightarrow> None | Some (old, d) \<Rightarrow> Some (m(addr \<mapsto> (prot, d))))"

definition write_at :: "nat \<Rightarrow> byte list \<Rightarrow> byte list \<Rightarrow> byte list" where
  "write_at pos b file =
     take pos file @ replicate (pos - length file) 0 @ b @ drop (pos + length b) file"

definition sys_read :: "os_env \<Rightarrow> byte list \<Rightarrow> nat \<Rightarrow> nat \<Rightarrow> int \<times> byte list" where
  "sys_read env file pos n =
     (case read_inject env of
        None \<Rightarrow> (let d = take n (drop pos file) in (int (length d), d))
      | Some r \<Rightarrow>
          if r < 0 then (- 1, [])
          else (let d = take (min n (nat r)) (drop pos file) in (int (length d), d)))"

definition sys_write :: "os_env \<Rightarrow> byte list \<Rightarrow> nat \<Rightarrow> byte list \<Rightarrow> int \<times> byte list" where
  "sys_write env file pos buf =
     (case write_inject env of
        None \<Rightarrow> (int (length buf), write_at pos buf file)
      | Some r \<Rightarrow>
          if r < 0 then (- 1, file)
          else (let b = take (nat r) buf in (int (length b), write_at pos b file)))"

section \<open>Global state of virtualmem.c\<close>

text \<open>
  The statics of virtualmem.c (\<open>unsigned int\<close> counters as 32-bit words, the page table as
  the array it is), the state of the replacement policy (\<open>policy\<close>, opaque to the pager),
  and the part of the process the pager acts on: the swap file behind \<open>fd_swapfile\<close> with
  its file offset, the log of the transfers on it, and the address space.
\<close>

record ('w, 'p) vmem =
  vmem_start :: nat
  vmem_end :: nat
  num_resident :: "32 word"
  max_resident :: "32 word"
  num_faults :: "32 word"
  num_loads :: "32 word"
  page_table :: "'w list"
  policy :: 'p
  swap_data :: "byte list"
  swap_pos :: nat
  swap_io :: "io_op list"
  mapped :: addr_space

subsection \<open>Helper functions\<close>

definition page_to_addr :: "'a::len word vm_consts \<Rightarrow> ('a word, 'p) vmem \<Rightarrow> nat \<Rightarrow> fatal + nat" where
  "page_to_addr c s page =
     (if page < NUM_PAGES c then Inr (vmem_start s + page * PAGE_SIZE c) else Inl AssertFailed)"

definition addr_to_page :: "'a::len word vm_consts \<Rightarrow> ('a word, 'p) vmem \<Rightarrow> nat \<Rightarrow> fatal + nat" where
  "addr_to_page c s addr =
     (if \<not> vmem_start s \<le> addr then Inl AssertFailed
      else if \<not> addr < vmem_end s then Inl AssertFailed
      else Inr ((addr - vmem_start s) div PAGE_SIZE c))"

definition get_num_faults :: "('w, 'p) vmem \<Rightarrow> 32 word" where
  "get_num_faults s = num_faults s"

definition get_num_loads :: "('w, 'p) vmem \<Rightarrow> 32 word" where
  "get_num_loads s = num_loads s"

subsection \<open>Page table entries\<close>

definition clear_page_entry ::
  "'a::len word vm_consts \<Rightarrow> ('a word, 'p) vmem \<Rightarrow> nat \<Rightarrow> fatal + ('a word, 'p) vmem" where
  "clear_page_entry c s page =
     (if page < NUM_PAGES c then Inr (s\<lparr>page_table := (page_table s)[page := 0]\<rparr>)
      else Inl AssertFailed)"

definition set_page_resident ::
  "'a::len word vm_consts \<Rightarrow> ('a word, 'p) vmem \<Rightarrow> nat \<Rightarrow> fatal + ('a word, 'p) vmem" where
  "set_page_resident c s page =
     (if page < NUM_PAGES c
      then Inr (s\<lparr>page_table := (page_table s)[page := page_table s ! page OR PAGE_RESIDENT c]\<rparr>)
      else Inl AssertFailed)"

definition is_page_resident ::
  "'a::len word vm_consts \<Rightarrow> ('a word, 'p) vmem \<Rightarrow> nat \<Rightarrow> fatal + 'a word" where
  "is_page_resident c s page =
     (if page < NUM_PAGES c then Inr (page_table s ! page AND PAGE_RESIDENT c)
      else Inl AssertFailed)"

definition set_page_accessed ::
  "'a::len word vm_consts \<Rightarrow> ('a word, 'p) vmem \<Rightarrow> nat \<Rightarrow> fatal + ('a word, 'p) vmem" where
  "set_page_accessed c s page =
     (if page < NUM_PAGES c
      then Inr (s\<lparr>page_table := (page_table s)[page := page_table s ! page OR PAGE_ACCESSED c]\<rparr>)
      else Inl AssertFailed)"

definition clear_page_accessed ::
  "'a::len word vm_consts \<Rightarrow> ('a word, 'p) vmem \<Rightarrow> nat \<Rightarrow> fatal + ('a word, 'p) vmem" where
  "clear_page_accessed c s page =
     (if page < NUM_PAGES c
      then Inr (s\<lparr>page_table :=
                  (page_table s)[page := page_table s ! page AND NOT (PAGE_ACCESSED c)]\<rparr>)
      else Inl AssertFailed)"

definition is_page_accessed ::
  "'a::len word vm_consts \<Rightarrow> ('a word, 'p) vmem \<Rightarrow> nat \<Rightarrow> fatal + 'a word" where
  "is_page_accessed c s page =
     (if page < NUM_PAGES c then Inr (page_table s ! page AND PAGE_ACCESSED c)
      else Inl AssertFailed)"

definition set_page_dirty ::
  "'a::len word vm_consts \<Rightarrow> ('a word, 'p) vmem \<Rightarrow> nat \<Rightarrow> fatal + ('a word, 'p) vmem" where
  "set_page_dirty c s page =
     (if page < NUM_PAGES c
      then Inr (s\<lparr>page_table := (page_table s)[page := page_table s ! page OR PAGE_DIRTY c]\<rparr>)
      else Inl AssertFailed)"

definition clear_page_dirty ::
  "'a::len word vm_consts \<Rightarrow> ('a word, 'p) vmem \<Rightarrow> nat \<Rightarrow> fatal + ('a word, 'p) vmem" where
  "clear_page_dirty c s page =
     (if page < NUM_PAGES c
      then Inr (s\<lparr>page_table :=
                  (page_table s)[page := page_table s ! page AND NOT (PAGE_DIRTY c)]\<rparr>)
      else Inl AssertFailed)"

definition is_page_dirty ::
  "'a::len word vm_consts \<Rightarrow> ('a word, 'p) vmem \<Rightarrow> nat \<Rightarrow> fatal + 'a word" where
  "is_page_dirty c s page =
     (if page < NUM_PAGES c then Inr (page_table s ! page AND PAGE_DIRTY c)
      else Inl AssertFailed)"

definition get_page_permission ::
  "'a::len word vm_consts \<Rightarrow> ('a word, 'p) vmem \<Rightarrow> nat \<Rightarrow> fatal + 'a word" where
  "get_page_permission c s page =
     (if page < NUM_PAGES c then Inr (page_table s ! page AND PAGEPERM_MASK c)
      else Inl AssertFailed)"

definition pageperm_to_mmap :: "'a::len word vm_consts \<Rightarrow> 'a word \<Rightarrow> fatal + int" where
  "pageperm_to_mmap c perm =
     (if \<not> (perm = PAGEPERM_NONE c \<or> perm = PAGEPERM_READ c \<or> perm = PAGEPERM_RDWR c)
      then Inl AssertFailed
      else if perm = PAGEPERM_NONE c then Inr PROT_NONE
      else if perm = PAGEPERM_READ c then Inr PROT_READ
      else if perm = PAGEPERM_RDWR c then Inr (PROT_READ OR PROT_WRITE)
      else Inl Abort)"

definition set_page_permission ::
  "'a::len word vm_consts \<Rightarrow> os_env \<Rightarrow> ('a word, 'p) vmem \<Rightarrow> nat \<Rightarrow> 'a word
     \<Rightarrow> fatal + ('a word, 'p) vmem" where
  "set_page_permission c env s page perm =
     (if \<not> page < NUM_PAGES c then Inl AssertFailed
      else if \<not> (perm = PAGEPERM_NONE c \<or> perm = PAGEPERM_READ c \<or> perm = PAGEPERM_RDWR c)
      then Inl AssertFailed
      else
        ebind (page_to_addr c s page) (\<lambda>addr.
        ebind (pageperm_to_mmap c perm) (\<lambda>prot.
          case sys_mprotect env (mapped s) addr prot of
            None \<Rightarrow> Inl Abort
          | Some m \<Rightarrow>
              Inr (s\<lparr>mapped := m,
                     page_table := (page_table s)
                       [page := (page_table s ! page AND NOT (PAGEPERM_MASK c)) OR perm]\<rparr>))))"

subsection \<open>Core functions\<close>

text \<open>
  The pager calls the policy through \<open>policy_init\<close>, \<open>policy_page_mapped\<close>,
  \<open>choose_and_evict_victim_page\<close> and \<open>policy_timer_tick\<close>; which file provides them is a
  build-time choice, so they are arguments (\<open>pinit\<close>, \<open>pmapped\<close>, \<open>pevict\<close>, \<open>ptick\<close>) here.
\<close>

definition map_page ::
  "'a::len word vm_consts \<Rightarrow> (os_env \<Rightarrow> 'p \<Rightarrow> nat \<Rightarrow> fatal + 'p) \<Rightarrow> os_env \<Rightarrow> ('a word, 'p) vmem
     \<Rightarrow> nat \<Rightarrow> 'a word \<Rightarrow> fatal + ('a word, 'p) vmem" where
  "map_page c pmapped env s page initial_perm =
     (if \<not> page < NUM_PAGES c then Inl AssertFailed
      else if \<not> (initial_perm = PAGEPERM_NONE c \<or> initial_perm = PAGEPERM_READ c \<or>
                 initial_perm = PAGEPERM_RDWR c)
      then Inl AssertFailed
      else
        ebind (is_page_resident c s page) (\<lambda>r.
        if r \<noteq> 0 then Inl AssertFailed
        else
          let s1 = s\<lparr>num_resident := num_resident s + 1\<rparr> in
          if num_resident s1 > max_resident s1 then Inl Abort
          else
            ebind (page_to_addr c s1 page) (\<lambda>input_addr.
            case mmap_outcome env of
              MmapFailed \<Rightarrow> Inl Abort
            | MmapElsewhere \<Rightarrow> Inl Abort
            | MmapOk \<Rightarrow>
                let s2 = s1\<lparr>mapped := (mapped s1)
                           (input_addr \<mapsto> (PROT_READ OR PROT_WRITE, replicate (PAGE_SIZE c) 0))\<rparr> in
                if lseek_fails env then Inl Abort
                else
                  let s3 = s2\<lparr>swap_pos := page * PAGE_SIZE c\<rparr>;
                      (rc, d) = sys_read env (swap_data s3) (swap_pos s3) (PAGE_SIZE c) in
                  if rc = - 1 then Inl Abort
                  else if rc \<noteq> int (PAGE_SIZE c) then Inl Abort
                  else
                    let s4 = s3\<lparr>mapped := (mapped s3)
                               (input_addr \<mapsto> (PROT_READ OR PROT_WRITE,
                                  d @ drop (length d) (replicate (PAGE_SIZE c) 0))),
                             swap_pos := swap_pos s3 + nat rc,
                             swap_io := swap_io s3 @ [SwapRead (swap_pos s3) (nat rc)]\<rparr>;
                        s5 = s4\<lparr>page_table := (page_table s4)[page := 0]\<rparr> in
                    ebind (set_page_resident c s5 page) (\<lambda>s6.
                    ebind (set_page_permission c env s6 page initial_perm) (\<lambda>s7.
                    ebind (is_page_resident c s7 page) (\<lambda>r'.
                    if r' = 0 then Inl AssertFailed
                    else
                      let s8 = s7\<lparr>num_loads := num_loads s7 + 1\<rparr> in
                      ebind (pmapped env (policy s8) page) (\<lambda>p'.
                      Inr (s8\<lparr>policy := p'\<rparr>))))))))"

definition unmap_page ::
  "'a::len word vm_consts \<Rightarrow> os_env \<Rightarrow> ('a word, 'p) vmem \<Rightarrow> nat \<Rightarrow> fatal + ('a word, 'p) vmem" where
  "unmap_page c env s page =
     (if \<not> page < NUM_PAGES c then Inl AssertFailed
      else if \<not> num_resident s > 0 then Inl AssertFailed
      else
        ebind (is_page_resident c s page) (\<lambda>r.
        if r = 0 then Inl AssertFailed
        else
          ebind (page_to_addr c s page) (\<lambda>addr.
          ebind (is_page_dirty c s page) (\<lambda>dirty.
          ebind
            (if dirty \<noteq> 0 then
               ebind (set_page_permission c env s page (PAGEPERM_READ c)) (\<lambda>s1.
               if lseek_fails env then Inl Abort
               else
                 let s2 = s1\<lparr>swap_pos := page * PAGE_SIZE c\<rparr>;
                     (wc, file) =
                       (case mapped s2 addr of
                          None \<Rightarrow> (- 1, swap_data s2)
                        | Some (prot, d) \<Rightarrow>
                            if prot AND PROT_READ = 0 then (- 1, swap_data s2)
                            else sys_write env (swap_data s2) (swap_pos s2)
                                   (take (PAGE_SIZE c) d)) in
                 if wc = - 1 then Inl Abort
                 else if wc \<noteq> int (PAGE_SIZE c) then Inl Abort
                 else Inr (s2\<lparr>swap_data := file,
                              swap_pos := swap_pos s2 + nat wc,
                              swap_io := swap_io s2 @ [SwapWrite (swap_pos s2) (nat wc)]\<rparr>))
             else Inr s)
            (\<lambda>s3.
            if munmap_fails env then Inl Abort
            else
              let s4 = s3\<lparr>mapped := (mapped s3)(addr := None)\<rparr> in
              ebind (clear_page_entry c s4 page) (\<lambda>s5.
              ebind (is_page_resident c s5 page) (\<lambda>r'.
              if r' \<noteq> 0 then Inl AssertFailed
              else Inr (s5\<lparr>num_resident := num_resident s5 - 1\<rparr>))))))))"

subsection \<open>Signal handlers\<close>

definition sigsegv_handler ::
  "'a::len word vm_consts \<Rightarrow> (os_env \<Rightarrow> 'p \<Rightarrow> nat \<Rightarrow> fatal + 'p) \<Rightarrow> ('p \<Rightarrow> fatal + nat \<times> 'p)
     \<Rightarrow> os_env \<Rightarrow> ('a word, 'p) vmem \<Rightarrow> nat \<Rightarrow> int \<Rightarrow> fatal + ('a word, 'p) vmem" where
  "sigsegv_handler c pmapped pevict env s addr si_code =
     (if addr < vmem_start s \<or> addr \<ge> vmem_end s then Inl Abort
      else
        let s1 = s\<lparr>num_faults := num_faults s + 1\<rparr> in
        ebind (addr_to_page c s1 addr) (\<lambda>page.
        if \<not> page < NUM_PAGES c then Inl AssertFailed
        else if \<not> (si_code = SEGV_MAPERR \<or> si_code = SEGV_ACCERR) then Inl AssertFailed
        else
          ebind
            (if si_code = SEGV_MAPERR then
               if \<not> num_resident s1 \<le> max_resident s1 then Inl AssertFailed
               else
                 ebind
                   (if num_resident s1 = max_resident s1 then
                      ebind (pevict (policy s1)) (\<lambda>(victim, p').
                      let s2 = s1\<lparr>policy := p'\<rparr> in
                      ebind (is_page_resident c s2 victim) (\<lambda>r.
                      if r = 0 then Inl AssertFailed
                      else
                        ebind (unmap_page c env s2 victim) (\<lambda>s3.
                        ebind (is_page_resident c s3 victim) (\<lambda>r'.
                        if r' \<noteq> 0 then Inl AssertFailed else Inr s3))))
                    else Inr s1)
                   (\<lambda>s4.
                   ebind (map_page c pmapped env s4 page (PAGEPERM_NONE c)) (\<lambda>s5.
                   ebind (is_page_resident c s5 page) (\<lambda>r.
                   if r = 0 then Inl AssertFailed else Inr s5)))
             else Inr s1)
            (\<lambda>s6.
            if si_code = SEGV_ACCERR then
              ebind (is_page_resident c s6 page) (\<lambda>r.
              if r = 0 then Inl AssertFailed
              else
                ebind (get_page_permission c s6 page) (\<lambda>perm.
                if perm = PAGEPERM_NONE c then
                  ebind (set_page_permission c env s6 page (PAGEPERM_READ c)) (\<lambda>s7.
                  ebind (set_page_accessed c s7 page) (\<lambda>s8.
                  ebind (is_page_accessed c s8 page) (\<lambda>a.
                  if a = 0 then Inl AssertFailed
                  else
                    ebind (get_page_permission c s8 page) (\<lambda>perm'.
                    if perm' \<noteq> PAGEPERM_READ c then Inl AssertFailed else Inr s8))))
                else
                  ebind (get_page_permission c s6 page) (\<lambda>perm2.
                  if perm2 = PAGEPERM_READ c then
                    ebind (set_page_permission c env s6 page (PAGEPERM_RDWR c)) (\<lambda>s7.
                    ebind (set_page_dirty c s7 page) (\<lambda>s8.
                    ebind (is_page_dirty c s8 page) (\<lambda>d.
                    if d = 0 then Inl AssertFailed
                    else
                      ebind (get_page_permission c s8 page) (\<lambda>perm'.
                      if perm' \<noteq> PAGEPERM_RDWR c then Inl AssertFailed else Inr s8))))
                  else Inr s6)))
            else Inr s6)))"

definition sigalrm_handler ::
  "(os_env \<Rightarrow> ('w, 'p) vmem \<Rightarrow> fatal + ('w, 'p) vmem) \<Rightarrow> os_env \<Rightarrow> ('w, 'p) vmem
     \<Rightarrow> fatal + ('w, 'p) vmem" where
  "sigalrm_handler ptick env s = ptick env s"

subsection \<open>Initialization\<close>

definition vmem_init ::
  "'a::len word vm_consts \<Rightarrow> (os_env \<Rightarrow> 'p \<Rightarrow> int \<Rightarrow> 'p \<times> int) \<Rightarrow> os_env \<Rightarrow> ('a word, 'p) vmem
     \<Rightarrow> 32 word \<Rightarrow> fatal + ('a word, 'p) vmem" where
  "vmem_init c pinit env s max_resident' =
     (let s1 = s\<lparr>vmem_start := VIRTUALMEM_ADDR_START,
                 vmem_end := VIRTUALMEM_ADDR_START + NUM_PAGES c * PAGE_SIZE c\<rparr>;
          s2 = s1\<lparr>num_resident := 0, max_resident := max_resident', num_faults := 0\<rparr>;
          s3 = s2\<lparr>page_table := replicate (NUM_PAGES c) 0\<rparr>;
          (p', ok) = pinit env (policy s3) (sint (max_resident s3)) in
      if ok = 0 then Inl Abort
      else
        let s4 = s3\<lparr>policy := p'\<rparr> in
        if open_fails env then Inl Abort
        else
          let s5 = s4\<lparr>swap_data := existing_swap env, swap_pos := 0\<rparr> in
          if unlink_fails env then Inl Abort
          else if lseek_fails env then Inl Abort
          else
            let s6 = s5\<lparr>swap_pos := NUM_PAGES c * PAGE_SIZE c\<rparr>;
                (wc, file) = sys_write env (swap_data s6) (swap_pos s6) [0x78] in
            if wc < 1 then Inl Abort
            else
              let s7 = s6\<lparr>swap_data := file, swap_pos := swap_pos s6 + nat wc,
                          swap_io := swap_io s6 @ [SwapWrite (swap_pos s6) (nat wc)]\<rparr> in
              if sigaction_fails env then Inl (Exit 1)
              else if setitimer_fails env then Inl (Exit 1)
              else Inr s7)"

section \<open>The FIFO policy (vmpolicy\_fifo.c)\<close>

text \<open>
  Queue nodes live in a heap: a map from addresses to nodes, a pointer is an address or
  \<open>None\<close> (\<open>NULL\<close>). \<open>malloc\<close> hands out the next unused address, \<open>free\<close> removes the node,
  and reading through a null or freed pointer is \<open>BadPointer\<close>. Both policy files use the
  names \<open>page_node\<close>, \<open>loaded_pages_t\<close> and \<open>loaded\<close>; here they carry the policy's prefix.
\<close>

record fifo_page_node =
  fifo_page :: nat
  fifo_next :: "nat option"

record fifo_loaded_pages_t =
  fifo_max_resident :: int
  fifo_head :: "nat option"
  fifo_tail :: "nat option"

record fifo_policy =
  fifo_loaded :: "fifo_loaded_pages_t option"
  fifo_nodes :: "nat \<Rightarrow> fifo_page_node option"
  fifo_next_free :: nat

definition fifo_policy_init :: "os_env \<Rightarrow> fifo_policy \<Rightarrow> int \<Rightarrow> fifo_policy \<times> int" where
  "fifo_policy_init env p max_resident' =
     (if malloc_null env then (p\<lparr>fifo_loaded := None\<rparr>, 0)
      else (p\<lparr>fifo_loaded :=
                Some \<lparr>fifo_max_resident = max_resident', fifo_head = None, fifo_tail = None\<rparr>\<rparr>,
            1))"

definition fifo_policy_page_mapped :: "os_env \<Rightarrow> fifo_policy \<Rightarrow> nat \<Rightarrow> fatal + fifo_policy" where
  "fifo_policy_page_mapped env p page =
     (if malloc_null env then Inl (Exit 0)
      else
        let node = fifo_next_free p;
            p1 = p\<lparr>fifo_nodes := (fifo_nodes p)(node \<mapsto> \<lparr>fifo_page = page, fifo_next = None\<rparr>),
                   fifo_next_free := node + 1\<rparr> in
        case fifo_loaded p1 of
          None \<Rightarrow> Inl BadPointer
        | Some l \<Rightarrow>
            if fifo_head l = None then
              Inr (p1\<lparr>fifo_loaded := Some (l\<lparr>fifo_head := Some node, fifo_tail := Some node\<rparr>)\<rparr>)
            else
              (case fifo_tail l of
                 None \<Rightarrow> Inl BadPointer
               | Some t \<Rightarrow>
                   (case fifo_nodes p1 t of
                      None \<Rightarrow> Inl BadPointer
                    | Some tn \<Rightarrow>
                        Inr (p1\<lparr>fifo_nodes := (fifo_nodes p1)(t \<mapsto> tn\<lparr>fifo_next := Some node\<rparr>),
                                 fifo_loaded := Some (l\<lparr>fifo_tail := Some node\<rparr>)\<rparr>))))"

definition fifo_policy_timer_tick ::
  "os_env \<Rightarrow> ('w, fifo_policy) vmem \<Rightarrow> fatal + ('w, fifo_policy) vmem" where
  "fifo_policy_timer_tick env s = Inr s"

definition fifo_choose_and_evict_victim_page :: "fifo_policy \<Rightarrow> fatal + nat \<times> fifo_policy" where
  "fifo_choose_and_evict_victim_page p =
     (case fifo_loaded p of
        None \<Rightarrow> Inl BadPointer
      | Some l \<Rightarrow>
          (case fifo_head l of
             None \<Rightarrow> Inl BadPointer
           | Some h \<Rightarrow>
               (case fifo_nodes p h of
                  None \<Rightarrow> Inl BadPointer
                | Some hn \<Rightarrow>
                    let victim = fifo_page hn;
                        temp = h;
                        l' = l\<lparr>fifo_head := fifo_next hn\<rparr> in
                    Inr (victim,
                         p\<lparr>fifo_loaded := Some l', fifo_nodes := (fifo_nodes p)(temp := None)\<rparr>))))"

section \<open>The CLOCK/LRU policy (vmpolicy\_clru.c)\<close>

record clru_page_node =
  clru_page :: nat
  clru_prev :: "nat option"
  clru_next :: "nat option"

record clru_loaded_pages_t =
  clru_max_resident :: int
  clru_num_loaded :: int
  clru_head :: "nat option"
  clru_tail :: "nat option"

record clru_policy =
  clru_loaded :: "clru_loaded_pages_t option"
  clru_nodes :: "nat \<Rightarrow> clru_page_node option"
  clru_next_free :: nat

text \<open>Reading \<open>ptr->field\<close> and assigning \<open>ptr->field = v\<close> through a node pointer.\<close>

definition clru_deref :: "clru_policy \<Rightarrow> nat option \<Rightarrow> fatal + clru_page_node" where
  "clru_deref p ptr =
     (case ptr of
        None \<Rightarrow> Inl BadPointer
      | Some a \<Rightarrow> (case clru_nodes p a of None \<Rightarrow> Inl BadPointer | Some n \<Rightarrow> Inr n))"

definition clru_assign ::
  "clru_policy \<Rightarrow> nat option \<Rightarrow> (clru_page_node \<Rightarrow> clru_page_node) \<Rightarrow> fatal + clru_policy" where
  "clru_assign p ptr f =
     (case ptr of
        None \<Rightarrow> Inl BadPointer
      | Some a \<Rightarrow>
          (case clru_nodes p a of
             None \<Rightarrow> Inl BadPointer
           | Some n \<Rightarrow> Inr (p\<lparr>clru_nodes := (clru_nodes p)(a \<mapsto> f n)\<rparr>)))"

definition clru_policy_init :: "os_env \<Rightarrow> clru_policy \<Rightarrow> int \<Rightarrow> clru_policy \<times> int" where
  "clru_policy_init env p max_resident' =
     (if malloc_null env then (p\<lparr>clru_loaded := None\<rparr>, 0)
      else (p\<lparr>clru_loaded :=
                Some \<lparr>clru_max_resident = max_resident', clru_num_loaded = 0,
                      clru_head = None, clru_tail = None\<rparr>\<rparr>,
            1))"

definition clru_policy_page_mapped :: "os_env \<Rightarrow> clru_policy \<Rightarrow> nat \<Rightarrow> fatal + clru_policy" where
  "clru_policy_page_mapped env p page =
     (if malloc_null env then Inl (Exit 0)
      else
        let node = clru_next_free p;
            p1 = p\<lparr>clru_nodes := (clru_nodes p)
                     (node \<mapsto> \<lparr>clru_page = page, clru_prev = None, clru_next = None\<rparr>),
                   clru_next_free := node + 1\<rparr> in
        case clru_loaded p1 of
          None \<Rightarrow> Inl BadPointer
        | Some l \<Rightarrow>
            ebind
              (if clru_head l = None then
                 Inr (p1\<lparr>clru_loaded := Some (l\<lparr>clru_head := Some node, clru_tail := Some node\<rparr>)\<rparr>)
               else
                 ebind (clru_assign p1 (Some node) (\<lambda>n. n\<lparr>clru_prev := clru_tail l\<rparr>)) (\<lambda>p2.
                 ebind (clru_assign p2 (clru_tail l) (\<lambda>n. n\<lparr>clru_next := Some node\<rparr>)) (\<lambda>p3.
                 Inr (p3\<lparr>clru_loaded := Some (l\<lparr>clru_tail := Some node\<rparr>)\<rparr>))))
              (\<lambda>p4.
              case clru_loaded p4 of
                None \<Rightarrow> Inl BadPointer
              | Some l4 \<Rightarrow>
                  Inr (p4\<lparr>clru_loaded :=
                            Some (l4\<lparr>clru_num_loaded := clru_num_loaded l4 + 1\<rparr>)\<rparr>)))"

text \<open>
  The body of \<open>if (is_page_accessed(page))\<close> in \<open>policy_timer_tick\<close> after the two page
  table calls (lines 147 to 164): unlink \<open>node\<close> when it is the head, or when it is neither
  head nor tail, then append it after \<open>loaded->tail\<close>. Every statement reads the heap the
  statement before it left.
\<close>

definition clru_move_to_back :: "clru_policy \<Rightarrow> nat option \<Rightarrow> fatal + clru_policy" where
  "clru_move_to_back p node =
     (case clru_loaded p of
        None \<Rightarrow> Inl BadPointer
      | Some l \<Rightarrow>
          ebind
            (if node = clru_head l then
               ebind (clru_deref p node) (\<lambda>n.
               ebind (clru_assign p (clru_next n) (\<lambda>x. x\<lparr>clru_prev := None\<rparr>)) (\<lambda>p1.
               ebind (clru_deref p1 node) (\<lambda>n1.
               Inr (p1\<lparr>clru_loaded := Some (l\<lparr>clru_head := clru_next n1\<rparr>)\<rparr>))))
             else if node \<noteq> clru_tail l then
               ebind (clru_deref p node) (\<lambda>n.
               ebind (clru_assign p (clru_prev n) (\<lambda>x. x\<lparr>clru_next := clru_next n\<rparr>)) (\<lambda>p1.
               ebind (clru_deref p1 node) (\<lambda>n1.
               ebind (clru_assign p1 (clru_next n1) (\<lambda>x. x\<lparr>clru_prev := clru_prev n1\<rparr>)) (\<lambda>p2.
               Inr p2))))
             else Inr p)
            (\<lambda>p3.
            case clru_loaded p3 of
              None \<Rightarrow> Inl BadPointer
            | Some l3 \<Rightarrow>
                ebind (clru_assign p3 node (\<lambda>x. x\<lparr>clru_prev := clru_tail l3\<rparr>)) (\<lambda>p4.
                ebind (clru_assign p4 node (\<lambda>x. x\<lparr>clru_next := None\<rparr>)) (\<lambda>p5.
                ebind (clru_assign p5 (clru_tail l3) (\<lambda>x. x\<lparr>clru_next := node\<rparr>)) (\<lambda>p6.
                Inr (p6\<lparr>clru_loaded := Some (l3\<lparr>clru_tail := node\<rparr>)\<rparr>))))))"

text \<open>
  The \<open>for\<close> loop of \<open>policy_timer_tick\<close>, by the number of iterations left:
  \<open>loaded->num_loaded\<close> is not assigned in the loop, so the bound \<open>i < loaded->num_loaded\<close>
  leaves \<open>num_loaded - i\<close> iterations.
\<close>

fun clru_tick_loop ::
  "'a::len word vm_consts \<Rightarrow> os_env \<Rightarrow> nat \<Rightarrow> nat option \<Rightarrow> ('a word, clru_policy) vmem
     \<Rightarrow> fatal + ('a word, clru_policy) vmem" where
  "clru_tick_loop c env 0 node s = Inr s"
| "clru_tick_loop c env (Suc k) node s =
     ebind (clru_deref (policy s) node) (\<lambda>n.
     let page = clru_page n;
         next_node = clru_next n in
     ebind (is_page_accessed c s page) (\<lambda>a.
     ebind
       (if a \<noteq> 0 then
          ebind (clear_page_accessed c s page) (\<lambda>s1.
          ebind (set_page_permission c env s1 page (PAGEPERM_NONE c)) (\<lambda>s2.
          ebind (clru_move_to_back (policy s2) node) (\<lambda>p'.
          Inr (s2\<lparr>policy := p'\<rparr>))))
        else Inr s)
       (\<lambda>s'. clru_tick_loop c env k next_node s')))"

definition clru_policy_timer_tick ::
  "'a::len word vm_consts \<Rightarrow> os_env \<Rightarrow> ('a word, clru_policy) vmem
     \<Rightarrow> fatal + ('a word, clru_policy) vmem" where
  "clru_policy_timer_tick c env s =
     (case clru_loaded (policy s) of
        None \<Rightarrow> Inl BadPointer
      | Some l \<Rightarrow>
          if clru_num_loaded l = 0 \<or> clru_num_loaded l = 1 then Inr s
          else clru_tick_loop c env (nat (clru_num_loaded l)) (clru_head l) s)"

definition clru_choose_and_evict_victim_page :: "clru_policy \<Rightarrow> fatal + nat \<times> clru_policy" where
  "clru_choose_and_evict_victim_page p =
     (case clru_loaded p of
        None \<Rightarrow> Inl BadPointer
      | Some l \<Rightarrow>
          (case clru_head l of
             None \<Rightarrow> Inl BadPointer
           | Some h \<Rightarrow>
               (case clru_nodes p h of
                  None \<Rightarrow> Inl BadPointer
                | Some hn \<Rightarrow>
                    let victim = clru_page hn;
                        temp = h;
                        l1 = l\<lparr>clru_head := clru_next hn\<rparr>;
                        p1 = p\<lparr>clru_loaded := Some l1,
                               clru_nodes := (clru_nodes p)(temp := None)\<rparr>;
                        l2 = l1\<lparr>clru_num_loaded := clru_num_loaded l1 - 1\<rparr> in
                    Inr (victim, p1\<lparr>clru_loaded := Some l2\<rparr>))))"

section \<open>Runs of the handlers\<close>

text \<open>
  Between two handler runs the host program executes; the pager's state changes only in the
  handlers. An event is one delivery of \<open>SIGSEGV\<close> (with \<open>si_addr\<close> and \<open>si_code\<close>) or of
  \<open>SIGALRM\<close>, together with what the operating system answers during the handler.
\<close>

datatype event = Fault os_env nat int | Tick os_env

definition handle_event ::
  "'a::len word vm_consts \<Rightarrow> (os_env \<Rightarrow> 'p \<Rightarrow> nat \<Rightarrow> fatal + 'p) \<Rightarrow> ('p \<Rightarrow> fatal + nat \<times> 'p)
     \<Rightarrow> (os_env \<Rightarrow> ('a word, 'p) vmem \<Rightarrow> fatal + ('a word, 'p) vmem)
     \<Rightarrow> ('a word, 'p) vmem \<Rightarrow> event \<Rightarrow> fatal + ('a word, 'p) vmem" where
  "handle_event c pmapped pevict ptick s e =
     (case e of
        Fault env addr si_code \<Rightarrow> sigsegv_handler c pmapped pevict env s addr si_code
      | Tick env \<Rightarrow> sigalrm_handler ptick env s)"

fun run ::
  "'a::len word vm_consts \<Rightarrow> (os_env \<Rightarrow> 'p \<Rightarrow> nat \<Rightarrow> fatal + 'p) \<Rightarrow> ('p \<Rightarrow> fatal + nat \<times> 'p)
     \<Rightarrow> (os_env \<Rightarrow> ('a word, 'p) vmem \<Rightarrow> fatal + ('a word, 'p) vmem)
     \<Rightarrow> ('a word, 'p) vmem \<Rightarrow> event list \<Rightarrow> fatal + ('a word, 'p) vmem" where
  "run c pmapped pevict ptick s [] = Inr s"
| "run c pmapped pevict ptick s (e # es) =
     ebind (handle_event c pmapped pevict ptick s e) (\<lambda>s'. run c pmapped pevict ptick s' es)"

definition fifo_run ::
  "'a::len word vm_consts \<Rightarrow> ('a word, fifo_policy) vmem \<Rightarrow> event list
     \<Rightarrow> fatal + ('a word, fifo_policy) vmem" where
  "fifo_run c = run c fifo_policy_page_mapped fifo_choose_and_evict_victim_page
                  fifo_policy_timer_tick"

definition clru_run ::
  "'a::len word vm_consts \<Rightarrow> ('a word, clru_policy) vmem \<Rightarrow> event list
     \<Rightarrow> fatal + ('a word, clru_policy) vmem" where
  "clru_run c = run c clru_policy_page_mapped clru_choose_and_evict_victim_page
                  (clru_policy_timer_tick c)"

text \<open>
  The process at program start: every static of virtualmem.c and of the policy file is zero
  (\<open>loaded\<close> is \<open>NULL\<close>), nothing is mapped, no swap file is open.
\<close>

definition program_start :: "'a::len word vm_consts \<Rightarrow> 'p \<Rightarrow> ('a word, 'p) vmem" where
  "program_start c p0 =
     \<lparr>vmem_start = 0, vmem_end = 0, num_resident = 0, max_resident = 0, num_faults = 0,
      num_loads = 0, page_table = replicate (NUM_PAGES c) 0, policy = p0, swap_data = [],
      swap_pos = 0, swap_io = [], mapped = (\<lambda>a. None)\<rparr>"

definition fifo_start :: fifo_policy where
  "fifo_start = \<lparr>fifo_loaded = None, fifo_nodes = (\<lambda>a. None), fifo_next_free = 0\<rparr>"

definition clru_start :: clru_policy where
  "clru_start = \<lparr>clru_loaded = None, clru_nodes = (\<lambda>a. None), clru_next_free = 0\<rparr>"

section \<open>What the claims speak about\<close>

text \<open>
  The number of pages whose resident bit is set, read through \<open>is_page_resident\<close>; the
  faults and the page loads of a run; the bytes of a page in the address space and those
  of its slot in the swap file.
\<close>

definition count_resident :: "'a::len word vm_consts \<Rightarrow> ('a word, 'p) vmem \<Rightarrow> nat" where
  "count_resident c s =
     length (filter (\<lambda>p. case is_page_resident c s p of Inl e \<Rightarrow> False | Inr r \<Rightarrow> r \<noteq> 0)
               [0..<NUM_PAGES c])"

fun is_fault :: "event \<Rightarrow> bool" where
  "is_fault (Fault env addr si_code) = True"
| "is_fault (Tick env) = False"

fun is_load :: "event \<Rightarrow> bool" where
  "is_load (Fault env addr si_code) = (si_code = SEGV_MAPERR)"
| "is_load (Tick env) = False"

definition count_faults :: "event list \<Rightarrow> nat" where
  "count_faults evs = length (filter is_fault evs)"

definition count_loads :: "event list \<Rightarrow> nat" where
  "count_loads evs = length (filter is_load evs)"

definition swap_slot :: "'a::len word vm_consts \<Rightarrow> byte list \<Rightarrow> nat \<Rightarrow> byte list" where
  "swap_slot c file page = take (PAGE_SIZE c) (drop (page * PAGE_SIZE c) file)"

definition page_bytes :: "'a::len word vm_consts \<Rightarrow> ('a word, 'p) vmem \<Rightarrow> nat \<Rightarrow> byte list option" where
  "page_bytes c s page =
     (case mapped s (vmem_start s + page * PAGE_SIZE c) of
        None \<Rightarrow> None
      | Some (prot, d) \<Rightarrow> Some d)"

text \<open>A fault whose address lies in the given page.\<close>

fun faults_on :: "'a::len word vm_consts \<Rightarrow> nat \<Rightarrow> event \<Rightarrow> bool" where
  "faults_on c page (Fault env addr si_code) =
     ((addr - VIRTUALMEM_ADDR_START) div PAGE_SIZE c = page)"
| "faults_on c page (Tick env) = False"

text \<open>
  A store of the host program to an address of the pool: it goes through when the page is
  mapped with write permission (otherwise the access faults, and the result is \<open>None\<close>).
\<close>

definition host_store ::
  "'a::len word vm_consts \<Rightarrow> ('a word, 'p) vmem \<Rightarrow> nat \<Rightarrow> byte \<Rightarrow> ('a word, 'p) vmem option" where
  "host_store c s addr b =
     (let page = (addr - vmem_start s) div PAGE_SIZE c;
          base = vmem_start s + page * PAGE_SIZE c in
      case mapped s base of
        None \<Rightarrow> None
      | Some (prot, d) \<Rightarrow>
          if prot AND PROT_WRITE = 0 then None
          else Some (s\<lparr>mapped := (mapped s)(base \<mapsto> (prot, d[addr - base := b]))\<rparr>))"

subsection \<open>Queues in the heap\<close>

text \<open>
  \<open>fifo_reach h ptr a\<close>: following \<open>next\<close> from the pointer \<open>ptr\<close> arrives at the allocated
  node at address \<open>a\<close>. A page is in the queue when a node reachable from \<open>loaded->head\<close>
  holds it. \<open>fifo_chain h ptr q\<close>: the nodes from \<open>ptr\<close> to the terminating \<open>NULL\<close> are, in
  order, at the addresses and with the pages of \<open>q\<close>.
\<close>

inductive fifo_reach :: "(nat \<Rightarrow> fifo_page_node option) \<Rightarrow> nat option \<Rightarrow> nat \<Rightarrow> bool" where
  fifo_here: "h a = Some n \<Longrightarrow> fifo_reach h (Some a) a"
| fifo_there: "h a = Some n \<Longrightarrow> fifo_reach h (fifo_next n) b \<Longrightarrow> fifo_reach h (Some a) b"

code_pred fifo_reach .

definition fifo_in_queue :: "fifo_policy \<Rightarrow> nat \<Rightarrow> bool" where
  "fifo_in_queue p page \<longleftrightarrow>
     (\<exists>l a n. fifo_loaded p = Some l \<and> fifo_reach (fifo_nodes p) (fifo_head l) a \<and>
        fifo_nodes p a = Some n \<and> fifo_page n = page)"

inductive clru_reach :: "(nat \<Rightarrow> clru_page_node option) \<Rightarrow> nat option \<Rightarrow> nat \<Rightarrow> bool" where
  clru_here: "h a = Some n \<Longrightarrow> clru_reach h (Some a) a"
| clru_there: "h a = Some n \<Longrightarrow> clru_reach h (clru_next n) b \<Longrightarrow> clru_reach h (Some a) b"

code_pred clru_reach .

definition clru_in_queue :: "clru_policy \<Rightarrow> nat \<Rightarrow> bool" where
  "clru_in_queue p page \<longleftrightarrow>
     (\<exists>l a n. clru_loaded p = Some l \<and> clru_reach (clru_nodes p) (clru_head l) a \<and>
        clru_nodes p a = Some n \<and> clru_page n = page)"

text \<open>
  The state a queue is in between two calls of the policy: \<open>loaded->tail\<close> is reachable from
  \<open>loaded->head\<close> unless the queue is empty, and the address \<open>malloc\<close> returns next is unused.
\<close>

definition fifo_linked :: "fifo_policy \<Rightarrow> bool" where
  "fifo_linked p \<longleftrightarrow>
     fifo_nodes p (fifo_next_free p) = None \<and>
     (case fifo_loaded p of
        None \<Rightarrow> False
      | Some l \<Rightarrow>
          (case fifo_head l of
             None \<Rightarrow> True
           | Some h \<Rightarrow>
               (case fifo_tail l of
                  None \<Rightarrow> False
                | Some t \<Rightarrow> fifo_reach (fifo_nodes p) (Some h) t)))"

definition clru_linked :: "clru_policy \<Rightarrow> bool" where
  "clru_linked p \<longleftrightarrow>
     clru_nodes p (clru_next_free p) = None \<and>
     (case clru_loaded p of
        None \<Rightarrow> False
      | Some l \<Rightarrow>
          (case clru_head l of
             None \<Rightarrow> True
           | Some h \<Rightarrow>
               (case clru_tail l of
                  None \<Rightarrow> False
                | Some t \<Rightarrow> clru_reach (clru_nodes p) (Some h) t)))"

primrec fifo_chain ::
  "(nat \<Rightarrow> fifo_page_node option) \<Rightarrow> nat option \<Rightarrow> (nat \<times> nat) list \<Rightarrow> bool" where
  "fifo_chain h ptr [] \<longleftrightarrow> ptr = None"
| "fifo_chain h ptr (x # xs) \<longleftrightarrow>
     ptr = Some (fst x) \<and>
     (case h (fst x) of
        None \<Rightarrow> False
      | Some n \<Rightarrow> fifo_page n = snd x \<and> fifo_chain h (fifo_next n) xs)"

definition fifo_queue :: "fifo_policy \<Rightarrow> (nat \<times> nat) list \<Rightarrow> bool" where
  "fifo_queue p q \<longleftrightarrow>
     (case fifo_loaded p of
        None \<Rightarrow> False
      | Some l \<Rightarrow>
          fifo_chain (fifo_nodes p) (fifo_head l) q \<and>
          distinct (map fst q) \<and>
          list_all (\<lambda>x. fst x < fifo_next_free p) q \<and>
          (q = [] \<or> fifo_tail l = Some (fst (last q))))"

text \<open>
  A sequence of calls of the policy, and the victims it returns in order. \<open>spec_fifo_exec\<close>
  is the queue of the spec in its own words: append on map, evict from the head.
\<close>

datatype policy_call = Mapped nat | Evict

fun fifo_exec ::
  "os_env \<Rightarrow> fifo_policy \<Rightarrow> policy_call list \<Rightarrow> fatal + nat list \<times> fifo_policy" where
  "fifo_exec env p [] = Inr ([], p)"
| "fifo_exec env p (Mapped page # cs) =
     ebind (fifo_policy_page_mapped env p page) (\<lambda>p'. fifo_exec env p' cs)"
| "fifo_exec env p (Evict # cs) =
     ebind (fifo_choose_and_evict_victim_page p) (\<lambda>(victim, p').
     ebind (fifo_exec env p' cs) (\<lambda>(vs, p''). Inr (victim # vs, p'')))"

fun spec_fifo_exec :: "nat list \<Rightarrow> policy_call list \<Rightarrow> (nat list \<times> nat list) option" where
  "spec_fifo_exec q [] = Some ([], q)"
| "spec_fifo_exec q (Mapped page # cs) = spec_fifo_exec (q @ [page]) cs"
| "spec_fifo_exec q (Evict # cs) =
     (case q of
        [] \<Rightarrow> None
      | victim # q' \<Rightarrow>
          (case spec_fifo_exec q' cs of
             None \<Rightarrow> None
           | Some (vs, q'') \<Rightarrow> Some (victim # vs, q'')))"

subsection \<open>Invariants\<close>

text \<open>
  What one timer tick of the CLOCK/LRU policy may do to a page table entry: nothing, or,
  when the accessed bit is set, clear it and set the permission to \<open>PAGEPERM_NONE\<close>.
\<close>

definition clru_aged :: "'a::len word vm_consts \<Rightarrow> 'a word \<Rightarrow> 'a word \<Rightarrow> bool" where
  "clru_aged c w w' \<longleftrightarrow>
     w' = w \<or>
     (w AND PAGE_ACCESSED c \<noteq> 0 \<and>
      w' = ((w AND NOT (PAGE_ACCESSED c)) AND NOT (PAGEPERM_MASK c)) OR PAGEPERM_NONE c)"

text \<open>
  The page table has its \<open>NUM_PAGES\<close> entries, \<open>num_resident\<close> counts the resident pages
  and does not exceed \<open>max_resident\<close>.
\<close>

definition resident_inv :: "'a::len word vm_consts \<Rightarrow> ('a word, 'p) vmem \<Rightarrow> bool" where
  "resident_inv c s \<longleftrightarrow>
     length (page_table s) = NUM_PAGES c \<and>
     unat (num_resident s) = count_resident c s \<and>
     num_resident s \<le> max_resident s"

text \<open>
  What the fault handler and the timer tick keep true of every page table entry: an entry
  without the resident bit is zero, and a resident entry whose permission is not
  \<open>PAGEPERM_NONE\<close> has the accessed bit. Without timer ticks that clear the accessed bit,
  a dirty entry is accessed as well.
\<close>

definition pte_tracked :: "'a::len word vm_consts \<Rightarrow> 'a word \<Rightarrow> bool" where
  "pte_tracked c w \<longleftrightarrow>
     (w AND PAGE_RESIDENT c = 0 \<longrightarrow> w = 0) \<and>
     (w AND PAGE_RESIDENT c \<noteq> 0 \<and> w AND PAGEPERM_MASK c \<noteq> PAGEPERM_NONE c \<longrightarrow>
        w AND PAGE_ACCESSED c \<noteq> 0)"

definition access_inv :: "'a::len word vm_consts \<Rightarrow> ('a word, 'p) vmem \<Rightarrow> bool" where
  "access_inv c s \<longleftrightarrow>
     length (page_table s) = NUM_PAGES c \<and> list_all (pte_tracked c) (page_table s)"

definition dirty_inv :: "'a::len word vm_consts \<Rightarrow> ('a word, 'p) vmem \<Rightarrow> bool" where
  "dirty_inv c s \<longleftrightarrow>
     list_all (\<lambda>w. w AND PAGE_DIRTY c \<noteq> 0 \<longrightarrow> w AND PAGE_ACCESSED c \<noteq> 0) (page_table s)"

section \<open>Basic facts\<close>

lemma ebind_Inl [simp]: "ebind (Inl e) f = Inl e"
  by (simp add: ebind_def)

lemma ebind_Inr [simp]: "ebind (Inr x) f = f x"
  by (simp add: ebind_def)

lemma ebind_eq_Inr: "ebind m f = Inr y \<longleftrightarrow> (\<exists>x. m = Inr x \<and> f x = Inr y)"
  by (cases m) simp_all

lemma word_setperm_perm:
  fixes w :: "'a::len word"
  assumes "p AND m = p"
  shows "((w AND NOT m) OR p) AND m = p"
  using assms by (auto simp: bit_eq_iff bit_simps)

lemma word_setperm_other:
  fixes w :: "'a::len word"
  assumes "p AND m = p" and "m AND x = 0"
  shows "((w AND NOT m) OR p) AND x = w AND x"
  using assms by (auto simp: bit_eq_iff bit_simps)

lemma word_setbit_same:
  fixes w :: "'a::len word"
  shows "(w OR x) AND x = x"
  by (auto simp: bit_eq_iff bit_simps)

lemma word_setbit_other:
  fixes w :: "'a::len word"
  assumes "x AND y = 0"
  shows "(w OR x) AND y = w AND y"
  using assms by (auto simp: bit_eq_iff bit_simps)

lemma word_clearbit_same:
  fixes w :: "'a::len word"
  shows "(w AND NOT x) AND x = 0"
  by (auto simp: bit_eq_iff bit_simps)

lemma word_clearbit_other:
  fixes w :: "'a::len word"
  assumes "x AND y = 0"
  shows "(w AND NOT x) AND y = w AND y"
  using assms by (auto simp: bit_eq_iff bit_simps)

lemma set_page_permissionE:
  assumes "set_page_permission c env s page perm = Inr s'"
  obtains old d prot where "page < NUM_PAGES c"
    and "perm = PAGEPERM_NONE c \<or> perm = PAGEPERM_READ c \<or> perm = PAGEPERM_RDWR c"
    and "mapped s (vmem_start s + page * PAGE_SIZE c) = Some (old, d)"
    and "pageperm_to_mmap c perm = Inr prot"
    and "s' = s\<lparr>mapped := (mapped s)(vmem_start s + page * PAGE_SIZE c \<mapsto> (prot, d)),
                page_table := (page_table s)
                  [page := (page_table s ! page AND NOT (PAGEPERM_MASK c)) OR perm]\<rparr>"
  using assms
  by (auto simp: set_page_permission_def page_to_addr_def ebind_eq_Inr sys_mprotect_def
      split: if_splits option.splits)

lemma sys_read_full:
  assumes "sys_read env file pos n = (rc, d)" and "rc = int n"
  shows "d = take n (drop pos file) \<and> length d = n"
proof (cases "read_inject env")
  case None
  with assms have d: "d = take n (drop pos file)" and l: "int (length d) = int n"
    by (auto simp: sys_read_def Let_def)
  from l have "length d = n" by simp
  with d show ?thesis by simp
next
  case (Some r)
  with assms have r: "\<not> r < 0" and d: "d = take (min n (nat r)) (drop pos file)"
    and l: "int (length d) = int n"
    by (auto simp: sys_read_def Let_def split: if_splits)
  from l have len: "length d = n" by simp
  with d have "n \<le> min n (nat r)" by (metis length_take min.cobounded2 min.commute)
  then have "min n (nat r) = n" by simp
  with d len show ?thesis by simp
qed

lemma sys_write_full:
  assumes "sys_write env file pos buf = (wc, file')" and "wc = int n" and "length buf = n"
  shows "file' = write_at pos buf file"
proof (cases "write_inject env")
  case None
  with assms show ?thesis by (auto simp: sys_write_def)
next
  case (Some r)
  with assms have r: "\<not> r < 0" and f: "file' = write_at pos (take (nat r) buf) file"
    and l: "int (length (take (nat r) buf)) = int n"
    by (auto simp: sys_write_def Let_def split: if_splits)
  from l assms(3) have "take (nat r) buf = buf" by (simp add: min_def split: if_splits)
  with f show ?thesis by simp
qed

lemma map_pageE:
  assumes "map_page c pm env s page perm = Inr s'"
    and "length (page_table s) = NUM_PAGES c"
  obtains p' prot where "page < NUM_PAGES c"
    and "perm = PAGEPERM_NONE c \<or> perm = PAGEPERM_READ c \<or> perm = PAGEPERM_RDWR c"
    and "page_table s ! page AND PAGE_RESIDENT c = 0"
    and "\<not> num_resident s + 1 > max_resident s"
    and "((PAGE_RESIDENT c AND NOT (PAGEPERM_MASK c)) OR perm) AND PAGE_RESIDENT c \<noteq> 0"
    and "pm env (policy s) page = Inr p'"
    and "pageperm_to_mmap c perm = Inr prot"
    and "length (take (PAGE_SIZE c) (drop (page * PAGE_SIZE c) (swap_data s))) = PAGE_SIZE c"
    and "s' = s\<lparr>num_resident := num_resident s + 1,
                num_loads := num_loads s + 1,
                page_table := (page_table s)
                  [page := (PAGE_RESIDENT c AND NOT (PAGEPERM_MASK c)) OR perm],
                policy := p',
                swap_pos := page * PAGE_SIZE c + PAGE_SIZE c,
                swap_io := swap_io s @ [SwapRead (page * PAGE_SIZE c) (PAGE_SIZE c)],
                mapped := (mapped s)(vmem_start s + page * PAGE_SIZE c \<mapsto>
                  (prot, take (PAGE_SIZE c) (drop (page * PAGE_SIZE c) (swap_data s))))\<rparr>"
  using assms
  by (auto simp: map_page_def ebind_eq_Inr Let_def is_page_resident_def page_to_addr_def
      set_page_resident_def
      elim!: set_page_permissionE dest!: sys_read_full
      split: if_splits mmap_result.splits prod.splits)


lemma pageperm_to_mmap_READ:
  "pageperm_to_mmap c (PAGEPERM_READ c) = Inr prot \<Longrightarrow> prot AND PROT_READ = 0 \<Longrightarrow>
     PAGEPERM_READ c = PAGEPERM_NONE c"
  by (auto simp: pageperm_to_mmap_def PROT_NONE_def PROT_READ_def PROT_WRITE_def split: if_splits)

lemma unmap_page_dirtyE:
  assumes "unmap_page c env s page = Inr s'"
    and "length (page_table s) = NUM_PAGES c"
    and "page_table s ! page AND PAGE_DIRTY c \<noteq> 0"
  obtains old d s1 where "page < NUM_PAGES c"
    and "num_resident s \<noteq> 0"
    and "page_table s ! page AND PAGE_RESIDENT c \<noteq> 0"
    and "set_page_permission c env s page (PAGEPERM_READ c) = Inr s1"
    and "mapped s (vmem_start s + page * PAGE_SIZE c) = Some (old, d)"
    and "length (take (PAGE_SIZE c) d) = PAGE_SIZE c"
    and "s' = s\<lparr>num_resident := num_resident s - 1,
                page_table := (page_table s)[page := 0],
                swap_data := write_at (page * PAGE_SIZE c) (take (PAGE_SIZE c) d) (swap_data s),
                swap_pos := page * PAGE_SIZE c + PAGE_SIZE c,
                swap_io := swap_io s @ [SwapWrite (page * PAGE_SIZE c) (PAGE_SIZE c)],
                mapped := (mapped s)(vmem_start s + page * PAGE_SIZE c := None)\<rparr>"
proof -
  from assms obtain s1 where s1: "set_page_permission c env s page (PAGEPERM_READ c) = Inr s1"
    by (auto simp: unmap_page_def ebind_eq_Inr is_page_resident_def is_page_dirty_def
        page_to_addr_def split: if_splits)
  from s1 obtain old d prot where
    m: "mapped s (vmem_start s + page * PAGE_SIZE c) = Some (old, d)"
    and prot: "pageperm_to_mmap c (PAGEPERM_READ c) = Inr prot"
    and s1eq: "s1 = s\<lparr>mapped := (mapped s)(vmem_start s + page * PAGE_SIZE c \<mapsto> (prot, d)),
                page_table := (page_table s)
                  [page := (page_table s ! page AND NOT (PAGEPERM_MASK c)) OR PAGEPERM_READ c]\<rparr>"
    by (elim set_page_permissionE) blast
  from assms s1 have rest:
    "page < NUM_PAGES c \<and> num_resident s \<noteq> 0 \<and> page_table s ! page AND PAGE_RESIDENT c \<noteq> 0 \<and>
     \<not> lseek_fails env \<and> \<not> munmap_fails env \<and> prot AND PROT_READ \<noteq> 0 \<and>
     (\<exists>wc fl. sys_write env (swap_data s) (page * PAGE_SIZE c) (take (PAGE_SIZE c) d) = (wc, fl) \<and>
        wc = int (PAGE_SIZE c) \<and>
        s' = s\<lparr>num_resident := num_resident s - 1,
                page_table := (page_table s)[page := 0],
                swap_data := fl,
                swap_pos := page * PAGE_SIZE c + PAGE_SIZE c,
                swap_io := swap_io s @ [SwapWrite (page * PAGE_SIZE c) (PAGE_SIZE c)],
                mapped := (mapped s)(vmem_start s + page * PAGE_SIZE c := None)\<rparr>)"
    by (auto simp: unmap_page_def ebind_eq_Inr is_page_resident_def is_page_dirty_def
        page_to_addr_def s1eq clear_page_entry_def Let_def word_gt_0
        split: if_splits prod.splits)
  then obtain wc fl where
    w: "sys_write env (swap_data s) (page * PAGE_SIZE c) (take (PAGE_SIZE c) d) = (wc, fl)"
    and wc: "wc = int (PAGE_SIZE c)"
    and s': "s' = s\<lparr>num_resident := num_resident s - 1,
                page_table := (page_table s)[page := 0],
                swap_data := fl,
                swap_pos := page * PAGE_SIZE c + PAGE_SIZE c,
                swap_io := swap_io s @ [SwapWrite (page * PAGE_SIZE c) (PAGE_SIZE c)],
                mapped := (mapped s)(vmem_start s + page * PAGE_SIZE c := None)\<rparr>"
    by blast
  have len: "length (take (PAGE_SIZE c) d) = PAGE_SIZE c"
  proof (cases "write_inject env")
    case None
    with w wc show ?thesis by (auto simp: sys_write_def)
  next
    case (Some r)
    with w wc have "int (length (take (nat r) (take (PAGE_SIZE c) d))) = int (PAGE_SIZE c)"
      by (auto simp: sys_write_def Let_def split: if_splits)
    then show ?thesis by (simp add: min_def split: if_splits)
  qed
  from sys_write_full [OF w wc len] s' have
    "s' = s\<lparr>num_resident := num_resident s - 1,
                page_table := (page_table s)[page := 0],
                swap_data := write_at (page * PAGE_SIZE c) (take (PAGE_SIZE c) d) (swap_data s),
                swap_pos := page * PAGE_SIZE c + PAGE_SIZE c,
                swap_io := swap_io s @ [SwapWrite (page * PAGE_SIZE c) (PAGE_SIZE c)],
                mapped := (mapped s)(vmem_start s + page * PAGE_SIZE c := None)\<rparr>"
    by simp
  with rest s1 m len that show thesis by blast
qed

lemma unmap_page_cleanE:
  assumes "unmap_page c env s page = Inr s'"
    and "length (page_table s) = NUM_PAGES c"
    and "page_table s ! page AND PAGE_DIRTY c = 0"
  obtains "page < NUM_PAGES c"
    and "num_resident s \<noteq> 0"
    and "page_table s ! page AND PAGE_RESIDENT c \<noteq> 0"
    and "s' = s\<lparr>num_resident := num_resident s - 1,
                page_table := (page_table s)[page := 0],
                mapped := (mapped s)(vmem_start s + page * PAGE_SIZE c := None)\<rparr>"
  using assms
  by (auto simp: unmap_page_def ebind_eq_Inr is_page_resident_def is_page_dirty_def
        page_to_addr_def clear_page_entry_def Let_def word_gt_0
        split: if_splits prod.splits)


lemma SEGV_codes_distinct [simp]: "SEGV_MAPERR \<noteq> SEGV_ACCERR" "SEGV_ACCERR \<noteq> SEGV_MAPERR"
  by (simp_all add: SEGV_MAPERR_def SEGV_ACCERR_def)

lemma sigsegv_handlerE [consumes 2, case_names load evict_load acc_read acc_write acc_other]:
  assumes "sigsegv_handler c pm pe env s addr code = Inr s'"
    and "length (page_table s) = NUM_PAGES c"
  obtains
    (load) page where "code = SEGV_MAPERR"
      and "vmem_start s \<le> addr" and "addr < vmem_end s"
      and "page = (addr - vmem_start s) div PAGE_SIZE c" and "page < NUM_PAGES c"
      and "num_resident s < max_resident s"
      and "map_page c pm env (s\<lparr>num_faults := num_faults s + 1\<rparr>) page (PAGEPERM_NONE c) = Inr s'"
  | (evict_load) page victim p' s3 where "code = SEGV_MAPERR"
      and "vmem_start s \<le> addr" and "addr < vmem_end s"
      and "page = (addr - vmem_start s) div PAGE_SIZE c" and "page < NUM_PAGES c"
      and "num_resident s = max_resident s"
      and "pe (policy s) = Inr (victim, p')"
      and "victim < NUM_PAGES c"
      and "page_table s ! victim AND PAGE_RESIDENT c \<noteq> 0"
      and "unmap_page c env (s\<lparr>num_faults := num_faults s + 1, policy := p'\<rparr>) victim = Inr s3"
      and "map_page c pm env s3 page (PAGEPERM_NONE c) = Inr s'"
  | (acc_read) page old d prot where "code = SEGV_ACCERR"
      and "vmem_start s \<le> addr" and "addr < vmem_end s"
      and "page = (addr - vmem_start s) div PAGE_SIZE c" and "page < NUM_PAGES c"
      and "page_table s ! page AND PAGE_RESIDENT c \<noteq> 0"
      and "page_table s ! page AND PAGEPERM_MASK c = PAGEPERM_NONE c"
      and "mapped s (vmem_start s + page * PAGE_SIZE c) = Some (old, d)"
      and "pageperm_to_mmap c (PAGEPERM_READ c) = Inr prot"
      and "page_table s' ! page AND PAGE_ACCESSED c \<noteq> 0"
      and "page_table s' ! page AND PAGEPERM_MASK c = PAGEPERM_READ c"
      and "s' = s\<lparr>num_faults := num_faults s + 1,
                  page_table := (page_table s)
                    [page := ((page_table s ! page AND NOT (PAGEPERM_MASK c)) OR PAGEPERM_READ c)
                              OR PAGE_ACCESSED c],
                  mapped := (mapped s)(vmem_start s + page * PAGE_SIZE c \<mapsto> (prot, d))\<rparr>"
  | (acc_write) page old d prot where "code = SEGV_ACCERR"
      and "vmem_start s \<le> addr" and "addr < vmem_end s"
      and "page = (addr - vmem_start s) div PAGE_SIZE c" and "page < NUM_PAGES c"
      and "page_table s ! page AND PAGE_RESIDENT c \<noteq> 0"
      and "page_table s ! page AND PAGEPERM_MASK c \<noteq> PAGEPERM_NONE c"
      and "page_table s ! page AND PAGEPERM_MASK c = PAGEPERM_READ c"
      and "mapped s (vmem_start s + page * PAGE_SIZE c) = Some (old, d)"
      and "pageperm_to_mmap c (PAGEPERM_RDWR c) = Inr prot"
      and "page_table s' ! page AND PAGE_DIRTY c \<noteq> 0"
      and "page_table s' ! page AND PAGEPERM_MASK c = PAGEPERM_RDWR c"
      and "s' = s\<lparr>num_faults := num_faults s + 1,
                  page_table := (page_table s)
                    [page := ((page_table s ! page AND NOT (PAGEPERM_MASK c)) OR PAGEPERM_RDWR c)
                              OR PAGE_DIRTY c],
                  mapped := (mapped s)(vmem_start s + page * PAGE_SIZE c \<mapsto> (prot, d))\<rparr>"
  | (acc_other) page where "code = SEGV_ACCERR"
      and "vmem_start s \<le> addr" and "addr < vmem_end s"
      and "page = (addr - vmem_start s) div PAGE_SIZE c" and "page < NUM_PAGES c"
      and "page_table s ! page AND PAGE_RESIDENT c \<noteq> 0"
      and "page_table s ! page AND PAGEPERM_MASK c \<noteq> PAGEPERM_NONE c"
      and "page_table s ! page AND PAGEPERM_MASK c \<noteq> PAGEPERM_READ c"
      and "s' = s\<lparr>num_faults := num_faults s + 1\<rparr>"
proof (cases "code = SEGV_MAPERR")
  case True
  show thesis
  proof (cases "num_resident s = max_resident s")
    case False
    with True assms show thesis
      by (intro load [of "(addr - vmem_start s) div PAGE_SIZE c"])
         (auto simp: sigsegv_handler_def ebind_eq_Inr Let_def addr_to_page_def
           split: if_splits)
  next
    case eq: True
    with True assms show thesis
      by (auto simp: sigsegv_handler_def ebind_eq_Inr Let_def addr_to_page_def
           is_page_resident_def
           intro!: evict_load [of "(addr - vmem_start s) div PAGE_SIZE c"]
           split: if_splits)
  qed
next
  case False
  with assms have acc: "code = SEGV_ACCERR"
    by (auto simp: sigsegv_handler_def ebind_eq_Inr Let_def split: if_splits)
  define page where "page = (addr - vmem_start s) div PAGE_SIZE c"
  from acc assms have basics: "vmem_start s \<le> addr" "addr < vmem_end s" "page < NUM_PAGES c"
    "page_table s ! page AND PAGE_RESIDENT c \<noteq> 0"
    by (auto simp: sigsegv_handler_def ebind_eq_Inr Let_def addr_to_page_def page_def
        is_page_resident_def split: if_splits)
  consider (n) "page_table s ! page AND PAGEPERM_MASK c = PAGEPERM_NONE c"
    | (r) "page_table s ! page AND PAGEPERM_MASK c \<noteq> PAGEPERM_NONE c"
          "page_table s ! page AND PAGEPERM_MASK c = PAGEPERM_READ c"
    | (o) "page_table s ! page AND PAGEPERM_MASK c \<noteq> PAGEPERM_NONE c"
          "page_table s ! page AND PAGEPERM_MASK c \<noteq> PAGEPERM_READ c"
    by blast
  then show thesis
  proof cases
    case n
    with acc assms basics show thesis
      by (auto simp: sigsegv_handler_def ebind_eq_Inr Let_def addr_to_page_def page_def
          is_page_resident_def get_page_permission_def set_page_accessed_def
          is_page_accessed_def
          elim!: set_page_permissionE intro!: acc_read [of page]
          split: if_splits)
  next
    case r
    with acc assms basics show thesis
      by (auto simp: sigsegv_handler_def ebind_eq_Inr Let_def addr_to_page_def page_def
          is_page_resident_def get_page_permission_def set_page_dirty_def
          is_page_dirty_def
          elim!: set_page_permissionE intro!: acc_write [of page]
          split: if_splits)
  next
    case o
    with acc assms basics show thesis
      by (auto simp: sigsegv_handler_def ebind_eq_Inr Let_def addr_to_page_def page_def
          is_page_resident_def get_page_permission_def
          intro!: acc_other [of page]
          split: if_splits)
  qed
qed

section \<open>Running the model on concrete inputs\<close>

lemmas pte_defs = clear_page_entry_def set_page_resident_def is_page_resident_def
  set_page_accessed_def clear_page_accessed_def is_page_accessed_def set_page_dirty_def
  clear_page_dirty_def is_page_dirty_def get_page_permission_def pageperm_to_mmap_def
  set_page_permission_def page_to_addr_def addr_to_page_def

lemmas os_defs = sys_mprotect_def sys_read_def sys_write_def write_at_def PROT_NONE_def
  PROT_READ_def PROT_WRITE_def SEGV_MAPERR_def SEGV_ACCERR_def VIRTUALMEM_ADDR_START_def
  ok_env_def

lemmas core_defs = map_page_def unmap_page_def sigsegv_handler_def sigalrm_handler_def
  vmem_init_def handle_event_def program_start_def small_consts_def Let_def

lemmas clru_defs = clru_deref_def clru_assign_def clru_policy_init_def
  clru_policy_page_mapped_def clru_move_to_back_def clru_policy_timer_tick_def
  clru_choose_and_evict_victim_page_def clru_run_def clru_start_def

lemmas fifo_defs = fifo_policy_init_def fifo_policy_page_mapped_def
  fifo_policy_timer_tick_def fifo_choose_and_evict_victim_page_def fifo_run_def
  fifo_start_def

lemma replicate_small: "replicate 4 x = [x, x, x, x]" "replicate 2 x = [x, x]"
  by (simp_all add: numeral_eq_Suc)

lemma clru_tick_loop_numeral:
  "clru_tick_loop c env (numeral k) node s = clru_tick_loop c env (Suc (pred_numeral k)) node s"
  by (simp add: numeral_eq_Suc)

lemmas run_simps = pte_defs os_defs core_defs clru_defs fifo_defs replicate_small
  clru_tick_loop_numeral

lemma consts_ok_small: "consts_ok small_consts"
  by (simp add: consts_ok_def small_consts_def)

subsection \<open>Runs\<close>

lemma run_append:
  "run c pm pe pt s (xs @ ys) = ebind (run c pm pe pt s xs) (\<lambda>s'. run c pm pe pt s' ys)"
  by (induction xs arbitrary: s) (auto simp: ebind_def split: sum.splits)

lemma run_invariant:
  assumes "run c pm pe pt s evs = Inr s'" and "P s"
    and "\<And>s e s'. P s \<Longrightarrow> handle_event c pm pe pt s e = Inr s' \<Longrightarrow> P s'"
  shows "P s'"
  using assms(1,2)
proof (induction evs arbitrary: s)
  case Nil
  then show ?case by simp
next
  case (Cons e evs)
  from Cons.prems(1) obtain s1 where e: "handle_event c pm pe pt s e = Inr s1"
    and r: "run c pm pe pt s1 evs = Inr s'"
    by (auto simp: ebind_eq_Inr)
  from assms(3) [OF Cons.prems(2) e] have "P s1" .
  with Cons.IH r show ?case by blast
qed

subsection \<open>What \<open>map_page\<close> and \<open>unmap_page\<close> change\<close>

lemma unmap_page_frame:
  assumes "unmap_page c env s page = Inr s'" and "length (page_table s) = NUM_PAGES c"
  shows "page < NUM_PAGES c \<and> num_resident s \<noteq> 0 \<and>
         page_table s ! page AND PAGE_RESIDENT c \<noteq> 0 \<and>
         page_table s' = (page_table s)[page := 0] \<and>
         num_resident s' = num_resident s - 1 \<and> max_resident s' = max_resident s \<and>
         num_faults s' = num_faults s \<and> num_loads s' = num_loads s \<and>
         policy s' = policy s \<and> vmem_start s' = vmem_start s \<and> vmem_end s' = vmem_end s"
proof (cases "page_table s ! page AND PAGE_DIRTY c = 0")
  case True
  from assms True show ?thesis by (elim unmap_page_cleanE) auto
next
  case False
  from assms False show ?thesis by (elim unmap_page_dirtyE) auto
qed

lemma map_page_frame:
  assumes "map_page c pm env s page perm = Inr s'" and "length (page_table s) = NUM_PAGES c"
  shows "page < NUM_PAGES c \<and>
         page_table s ! page AND PAGE_RESIDENT c = 0 \<and>
         \<not> num_resident s + 1 > max_resident s \<and>
         ((PAGE_RESIDENT c AND NOT (PAGEPERM_MASK c)) OR perm) AND PAGE_RESIDENT c \<noteq> 0 \<and>
         page_table s' = (page_table s)
           [page := (PAGE_RESIDENT c AND NOT (PAGEPERM_MASK c)) OR perm] \<and>
         num_resident s' = num_resident s + 1 \<and> max_resident s' = max_resident s \<and>
         num_faults s' = num_faults s \<and> num_loads s' = num_loads s + 1 \<and>
         pm env (policy s) page = Inr (policy s') \<and>
         swap_data s' = swap_data s \<and>
         vmem_start s' = vmem_start s \<and> vmem_end s' = vmem_end s"
  using assms by (elim map_pageE) auto

subsection \<open>Counters\<close>

lemma sigsegv_handler_counters:
  assumes "sigsegv_handler c pm pe env s addr code = Inr s'"
    and "length (page_table s) = NUM_PAGES c"
  shows "num_faults s' = num_faults s + 1 \<and>
         num_loads s' = num_loads s + (if code = SEGV_MAPERR then 1 else 0) \<and>
         length (page_table s') = NUM_PAGES c"
  using assms
proof (cases rule: sigsegv_handlerE)
  case (load page)
  from map_page_frame [OF load(7)] assms(2) load(1) show ?thesis by simp
next
  case (evict_load page victim p' s3)
  from unmap_page_frame [OF evict_load(10)] assms(2)
  have u: "length (page_table s3) = NUM_PAGES c" "num_faults s3 = num_faults s + 1"
    "num_loads s3 = num_loads s"
    by simp_all
  from map_page_frame [OF evict_load(11) u(1)] u evict_load(1) show ?thesis by simp
next
  case (acc_read page old d prot)
  with assms(2) show ?thesis by simp
next
  case (acc_write page old d prot)
  with assms(2) show ?thesis by simp
next
  case (acc_other page)
  with assms(2) show ?thesis by simp
qed


subsection \<open>The timer tick of the CLOCK/LRU policy\<close>

lemma word_aged_clear:
  fixes w :: "'a::len word"
  assumes "p AND m = p" and "m AND x = 0"
  shows "(((w AND NOT x) AND NOT m) OR p) AND x = 0"
  using assms by (auto simp: bit_eq_iff bit_simps)

lemma clru_aged_refl: "clru_aged c w w"
  by (simp add: clru_aged_def)

lemma clru_aged_trans:
  assumes "consts_ok c" and "clru_aged c w w1" and "clru_aged c w1 w2"
  shows "clru_aged c w w2"
proof -
  from assms(1) have n: "PAGEPERM_NONE c AND PAGEPERM_MASK c = PAGEPERM_NONE c"
    and m: "PAGEPERM_MASK c AND PAGE_ACCESSED c = 0"
    by (simp_all add: consts_ok_def)
  from assms(2,3) word_aged_clear [OF n m] show ?thesis
    by (auto simp: clru_aged_def)
qed

lemma clru_tick_iteration:
  assumes "is_page_accessed c s page = Inr a" and "a \<noteq> 0"
    and "clear_page_accessed c s page = Inr s1"
    and "set_page_permission c env s1 page (PAGEPERM_NONE c) = Inr s2"
  shows "num_resident s2 = num_resident s \<and> max_resident s2 = max_resident s \<and>
         num_faults s2 = num_faults s \<and> num_loads s2 = num_loads s \<and>
         swap_data s2 = swap_data s \<and> vmem_start s2 = vmem_start s \<and>
         vmem_end s2 = vmem_end s \<and> policy s2 = policy s \<and>
         length (page_table s2) = length (page_table s) \<and>
         (\<forall>p<length (page_table s). clru_aged c (page_table s ! p) (page_table s2 ! p))"
proof -
  from assms(1,2) have acc: "page_table s ! page AND PAGE_ACCESSED c \<noteq> 0"
    by (auto simp: is_page_accessed_def split: if_splits)
  from assms(3) have s1: "s1 = s\<lparr>page_table :=
      (page_table s)[page := page_table s ! page AND NOT (PAGE_ACCESSED c)]\<rparr>"
    by (auto simp: clear_page_accessed_def split: if_splits)
  from assms(4) obtain old d prot where
    s2: "s2 = s1\<lparr>mapped := (mapped s1)(vmem_start s1 + page * PAGE_SIZE c \<mapsto> (prot, d)),
      page_table := (page_table s1)
        [page := (page_table s1 ! page AND NOT (PAGEPERM_MASK c)) OR PAGEPERM_NONE c]\<rparr>"
    by (elim set_page_permissionE) blast
  have pt: "page_table s2 =
      (if page < length (page_table s)
       then (page_table s)[page := ((page_table s ! page AND NOT (PAGE_ACCESSED c))
              AND NOT (PAGEPERM_MASK c)) OR PAGEPERM_NONE c]
       else page_table s)"
    by (simp add: s2 s1 list_update_beyond)
  have fr: "num_resident s2 = num_resident s \<and> max_resident s2 = max_resident s \<and>
         num_faults s2 = num_faults s \<and> num_loads s2 = num_loads s \<and>
         swap_data s2 = swap_data s \<and> vmem_start s2 = vmem_start s \<and>
         vmem_end s2 = vmem_end s \<and> policy s2 = policy s"
    by (simp add: s2 s1)
  have len: "length (page_table s2) = length (page_table s)"
    by (simp add: pt)
  have "\<forall>p<length (page_table s). clru_aged c (page_table s ! p) (page_table s2 ! p)"
  proof (intro allI impI)
    fix p
    assume p: "p < length (page_table s)"
    show "clru_aged c (page_table s ! p) (page_table s2 ! p)"
    proof (cases "p = page")
      case True
      with p acc show ?thesis by (simp add: pt clru_aged_def)
    next
      case False
      then show ?thesis by (simp add: pt clru_aged_def)
    qed
  qed
  with len have "length (page_table s2) = length (page_table s) \<and>
      (\<forall>p<length (page_table s). clru_aged c (page_table s ! p) (page_table s2 ! p))"
    by simp
  with fr show ?thesis by simp
qed

lemma clru_tick_loop_frame:
  assumes "clru_tick_loop c env k node s = Inr s'" and "consts_ok c"
  shows "num_resident s' = num_resident s \<and> max_resident s' = max_resident s \<and>
         num_faults s' = num_faults s \<and> num_loads s' = num_loads s \<and>
         swap_data s' = swap_data s \<and> vmem_start s' = vmem_start s \<and>
         vmem_end s' = vmem_end s \<and>
         length (page_table s') = length (page_table s) \<and>
         (\<forall>p<length (page_table s). clru_aged c (page_table s ! p) (page_table s' ! p))"
  using assms(1)
proof (induction k arbitrary: node s)
  case 0
  then show ?case by (simp add: clru_aged_refl)
next
  case (Suc k)
  let ?goal = "\<lambda>t. num_resident t = num_resident s \<and> max_resident t = max_resident s \<and>
         num_faults t = num_faults s \<and> num_loads t = num_loads s \<and>
         swap_data t = swap_data s \<and> vmem_start t = vmem_start s \<and>
         vmem_end t = vmem_end s \<and>
         length (page_table t) = length (page_table s) \<and>
         (\<forall>p<length (page_table s). clru_aged c (page_table s ! p) (page_table t ! p))"
  from Suc.prems obtain n where d: "clru_deref (policy s) node = Inr n"
    by (cases "clru_deref (policy s) node") simp_all
  from Suc.prems d obtain a where a: "is_page_accessed c s (clru_page n) = Inr a"
    by (cases "is_page_accessed c s (clru_page n)") (simp_all add: Let_def)
  show ?case
  proof (cases "a = 0")
    case True
    with Suc.prems d a have "clru_tick_loop c env k (clru_next n) s = Inr s'"
      by (simp add: Let_def)
    from Suc.IH [OF this] show ?thesis .
  next
    case False
    with Suc.prems d a obtain t1 t2 p' where
      t1: "clear_page_accessed c s (clru_page n) = Inr t1"
      and t2: "set_page_permission c env t1 (clru_page n) (PAGEPERM_NONE c) = Inr t2"
      and rest: "clru_tick_loop c env k (clru_next n) (t2\<lparr>policy := p'\<rparr>) = Inr s'"
      by (auto simp: Let_def ebind_eq_Inr)
    define t where "t = t2\<lparr>policy := p'\<rparr>"
    from clru_tick_iteration [OF a False t1 t2]
    have step: "?goal t" by (simp add: t_def)
    from Suc.IH [OF rest [folded t_def]]
    have ih: "num_resident s' = num_resident t \<and> max_resident s' = max_resident t \<and>
         num_faults s' = num_faults t \<and> num_loads s' = num_loads t \<and>
         swap_data s' = swap_data t \<and> vmem_start s' = vmem_start t \<and>
         vmem_end s' = vmem_end t \<and>
         length (page_table s') = length (page_table t) \<and>
         (\<forall>p<length (page_table t). clru_aged c (page_table t ! p) (page_table s' ! p))" .
    have "\<forall>p<length (page_table s). clru_aged c (page_table s ! p) (page_table s' ! p)"
    proof (intro allI impI)
      fix p
      assume p: "p < length (page_table s)"
      with step have 1: "clru_aged c (page_table s ! p) (page_table t ! p)" by simp
      from p step ih have 2: "clru_aged c (page_table t ! p) (page_table s' ! p)" by simp
      from clru_aged_trans [OF assms(2) 1 2]
      show "clru_aged c (page_table s ! p) (page_table s' ! p)" .
    qed
    with ih step show ?thesis by simp
  qed
qed

lemma clru_policy_timer_tick_frame:
  assumes "clru_policy_timer_tick c env s = Inr s'" and "consts_ok c"
  shows "num_resident s' = num_resident s \<and> max_resident s' = max_resident s \<and>
         num_faults s' = num_faults s \<and> num_loads s' = num_loads s \<and>
         swap_data s' = swap_data s \<and> vmem_start s' = vmem_start s \<and>
         vmem_end s' = vmem_end s \<and>
         length (page_table s') = length (page_table s) \<and>
         (\<forall>p<length (page_table s). clru_aged c (page_table s ! p) (page_table s' ! p))"
proof (cases "clru_loaded (policy s)")
  case None
  with assms show ?thesis by (simp add: clru_policy_timer_tick_def)
next
  case (Some l)
  show ?thesis
  proof (cases "clru_num_loaded l = 0 \<or> clru_num_loaded l = 1")
    case True
    with Some assms show ?thesis by (auto simp: clru_policy_timer_tick_def clru_aged_refl)
  next
    case False
    with Some assms(1) have "clru_tick_loop c env (nat (clru_num_loaded l)) (clru_head l) s = Inr s'"
      by (simp add: clru_policy_timer_tick_def)
    from clru_tick_loop_frame [OF this assms(2)] show ?thesis .
  qed
qed

section \<open>Initialization\<close>

text \<open>
  Claim C7: \<open>vmem_init\<close> sets \<open>num_resident\<close>, \<open>num_faults\<close> and \<open>num_loads\<close> to 0 and zeroes
  the page table, whatever the state before. The code assigns \<open>num_resident\<close> and
  \<open>num_faults\<close> and clears the table, but never assigns \<open>num_loads\<close>: a returning
  \<open>vmem_init\<close> leaves \<open>num_loads\<close> at the value it had. In the witness the pager is
  initialized, loads one page, and is initialized again: \<open>num_loads\<close> still reads 1.
\<close>

theorem vmem_init_keeps_num_loads:
  "vmem_init c pinit env s m = Inr s' \<Longrightarrow>
     num_loads s' = num_loads s \<and> num_resident s' = 0 \<and> num_faults s' = 0 \<and>
     page_table s' = replicate (NUM_PAGES c) 0"
  by (auto simp: vmem_init_def Let_def split: if_splits prod.splits)

theorem vmem_init_keeps_num_loads_witness:
  "(case ebind (ebind (vmem_init small_consts fifo_policy_init ok_env
                         (program_start small_consts fifo_start) 2)
                  (\<lambda>s. fifo_run small_consts s [Fault ok_env 0x20000000 SEGV_MAPERR]))
           (\<lambda>s. vmem_init small_consts fifo_policy_init ok_env s 2) of
      Inl e \<Rightarrow> False
    | Inr s \<Rightarrow> num_loads s = 1 \<and> num_faults s = 0 \<and> num_resident s = 0)"
proof -
  have "\<exists>s1. ebind (vmem_init small_consts fifo_policy_init ok_env
                      (program_start small_consts fifo_start) 2)
               (\<lambda>s. fifo_run small_consts s [Fault ok_env 0x20000000 SEGV_MAPERR]) = Inr s1 \<and>
             num_loads s1 = 1"
    by (simp add: run_simps)
  then obtain s1 where r1: "ebind (vmem_init small_consts fifo_policy_init ok_env
                      (program_start small_consts fifo_start) 2)
               (\<lambda>s. fifo_run small_consts s [Fault ok_env 0x20000000 SEGV_MAPERR]) = Inr s1"
    and l1: "num_loads s1 = 1"
    by blast
  have "\<exists>s2. vmem_init small_consts fifo_policy_init ok_env s1 2 = Inr s2"
    by (simp add: vmem_init_def fifo_policy_init_def ok_env_def sys_write_def Let_def)
  then obtain s2 where r2: "vmem_init small_consts fifo_policy_init ok_env s1 2 = Inr s2"
    by blast
  from vmem_init_keeps_num_loads [OF r2] l1 r1 r2 show ?thesis
    by simp
qed

section \<open>Access faults on a page with read and write permission\<close>

text \<open>
  Claim C6: an access-forbidden fault (\<open>SEGV_ACCERR\<close>) on a page whose permission is
  \<open>PAGEPERM_RDWR\<close> is fatal. The handler has a branch for \<open>PAGEPERM_NONE\<close> and one for
  \<open>PAGEPERM_READ\<close> and no \<open>else\<close>: on a resident page with permission \<open>PAGEPERM_RDWR\<close> it
  returns normally, and only \<open>num_faults\<close> has changed.
\<close>

theorem accerr_on_rdwr_returns:
  assumes "consts_ok c"
    and "vmem_start s \<le> addr" and "addr < vmem_end s"
    and "(addr - vmem_start s) div PAGE_SIZE c < NUM_PAGES c"
    and "is_page_resident c s ((addr - vmem_start s) div PAGE_SIZE c) = Inr r" and "r \<noteq> 0"
    and "get_page_permission c s ((addr - vmem_start s) div PAGE_SIZE c) = Inr (PAGEPERM_RDWR c)"
  shows "sigsegv_handler c pmapped pevict env s addr SEGV_ACCERR =
           Inr (s\<lparr>num_faults := num_faults s + 1\<rparr>)"
  using assms
  by (auto simp: sigsegv_handler_def consts_ok_def addr_to_page_def Let_def
      is_page_resident_def get_page_permission_def split: if_splits)

theorem accerr_on_rdwr_returns_witness:
  "(case ebind (vmem_init small_consts fifo_policy_init ok_env
                  (program_start small_consts fifo_start) 2)
           (\<lambda>s. fifo_run small_consts s
              [Fault ok_env 0x20000000 SEGV_MAPERR, Fault ok_env 0x20000000 SEGV_ACCERR,
               Fault ok_env 0x20000000 SEGV_ACCERR]) of
      Inl e \<Rightarrow> False
    | Inr s \<Rightarrow>
        get_page_permission small_consts s 0 = Inr (PAGEPERM_RDWR small_consts) \<and>
        sigsegv_handler small_consts fifo_policy_page_mapped fifo_choose_and_evict_victim_page
          ok_env s 0x20000000 SEGV_ACCERR = Inr (s\<lparr>num_faults := 4\<rparr>))"
proof -
  have "\<exists>s3. ebind (vmem_init small_consts fifo_policy_init ok_env
                  (program_start small_consts fifo_start) 2)
           (\<lambda>s. fifo_run small_consts s
              [Fault ok_env 0x20000000 SEGV_MAPERR, Fault ok_env 0x20000000 SEGV_ACCERR,
               Fault ok_env 0x20000000 SEGV_ACCERR]) = Inr s3 \<and>
           vmem_start s3 = 0x20000000 \<and> vmem_end s3 = 0x20000008 \<and>
           page_table s3 = [31, 0, 0, 0] \<and> num_faults s3 = 3"
    by (simp add: run_simps)
  then obtain s3 where r: "ebind (vmem_init small_consts fifo_policy_init ok_env
                  (program_start small_consts fifo_start) 2)
           (\<lambda>s. fifo_run small_consts s
              [Fault ok_env 0x20000000 SEGV_MAPERR, Fault ok_env 0x20000000 SEGV_ACCERR,
               Fault ok_env 0x20000000 SEGV_ACCERR]) = Inr s3"
    and f: "vmem_start s3 = 0x20000000" "vmem_end s3 = 0x20000008"
      "page_table s3 = [31, 0, 0, 0]" "num_faults s3 = 3"
    by blast
  have ok: "consts_ok small_consts"
    by (simp add: consts_ok_def small_consts_def)
  have p: "get_page_permission small_consts s3 0 = Inr (PAGEPERM_RDWR small_consts)"
    by (simp add: get_page_permission_def small_consts_def f)
  have "sigsegv_handler small_consts fifo_policy_page_mapped fifo_choose_and_evict_victim_page
          ok_env s3 0x20000000 SEGV_ACCERR = Inr (s3\<lparr>num_faults := num_faults s3 + 1\<rparr>)"
    by (rule accerr_on_rdwr_returns [where r = 4])
       (simp_all add: ok [unfolded small_consts_def] f is_page_resident_def
         get_page_permission_def small_consts_def)
  with r p f show ?thesis by simp
qed

section \<open>Fault and load counters\<close>

lemma handle_event_counters:
  assumes "handle_event c pm pe pt s e = Inr s'"
    and "length (page_table s) = NUM_PAGES c"
    and "\<And>env t t'. pt env t = Inr t' \<Longrightarrow>
           num_faults t' = num_faults t \<and> num_loads t' = num_loads t \<and>
           length (page_table t') = length (page_table t)"
  shows "num_faults s' = num_faults s + (if is_fault e then 1 else 0) \<and>
         num_loads s' = num_loads s + (if is_load e then 1 else 0) \<and>
         length (page_table s') = NUM_PAGES c"
proof (cases e)
  case (Fault env addr code)
  with assms(1) have "sigsegv_handler c pm pe env s addr code = Inr s'"
    by (simp add: handle_event_def)
  from sigsegv_handler_counters [OF this assms(2)] Fault show ?thesis by simp
next
  case (Tick env)
  with assms(1) have "pt env s = Inr s'"
    by (simp add: handle_event_def sigalrm_handler_def)
  from assms(3) [OF this] assms(2) Tick show ?thesis by simp
qed

lemma run_counters:
  assumes "run c pm pe pt s evs = Inr s'"
    and "length (page_table s) = NUM_PAGES c"
    and "\<And>env t t'. pt env t = Inr t' \<Longrightarrow>
           num_faults t' = num_faults t \<and> num_loads t' = num_loads t \<and>
           length (page_table t') = length (page_table t)"
  shows "num_faults s' = num_faults s + of_nat (count_faults evs) \<and>
         num_loads s' = num_loads s + of_nat (count_loads evs) \<and>
         length (page_table s') = NUM_PAGES c"
  using assms(1,2)
proof (induction evs arbitrary: s)
  case Nil
  then show ?case by (simp add: count_faults_def count_loads_def)
next
  case (Cons e evs)
  from Cons.prems(1) obtain s1 where e: "handle_event c pm pe pt s e = Inr s1"
    and r: "run c pm pe pt s1 evs = Inr s'"
    by (auto simp: ebind_eq_Inr)
  from handle_event_counters [OF e Cons.prems(2) assms(3)]
  have h: "num_faults s1 = num_faults s + (if is_fault e then 1 else 0)"
    "num_loads s1 = num_loads s + (if is_load e then 1 else 0)"
    "length (page_table s1) = NUM_PAGES c"
    by simp_all
  from Cons.IH [OF r h(3)] h show ?case
    by (simp add: count_faults_def count_loads_def)
qed

lemma count_loads_le_faults: "count_loads evs \<le> count_faults evs"
proof -
  have "is_load e \<Longrightarrow> is_fault e" for e by (cases e) simp_all
  then have "filter is_load evs = filter is_load (filter is_fault evs)"
    by (induction evs) auto
  then show ?thesis
    unfolding count_loads_def count_faults_def by (metis length_filter_le)
qed

lemma unat_add_of_nat:
  fixes x :: "32 word"
  assumes "unat x + n < 2 ^ 32"
  shows "unat (x + of_nat n) = unat x + n"
proof -
  from assms have n: "n < 2 ^ 32" by simp
  then have u: "unat (of_nat n :: 32 word) = n" by (simp add: unat_of_nat)
  with assms have "unat x + unat (of_nat n :: 32 word) < 2 ^ LENGTH(32)" by simp
  then have "unat (x + of_nat n) = unat x + unat (of_nat n :: 32 word)"
    by (rule unat_add_lem [THEN iffD1])
  with u show ?thesis by simp
qed

lemma counters_no_wrap:
  fixes nf nl :: "32 word"
  assumes "nl \<le> nf" and "unat nf + a < 2 ^ 32" and "b \<le> a"
  shows "unat (nf + of_nat a) = unat nf + a \<and> unat (nl + of_nat b) = unat nl + b \<and>
         nf \<le> nf + of_nat a \<and> nl \<le> nl + of_nat b \<and> nl + of_nat b \<le> nf + of_nat a"
proof -
  from assms have le: "unat nl \<le> unat nf" by (simp add: word_le_nat_alt)
  with assms have b: "unat nl + b < 2 ^ 32" by simp
  from unat_add_of_nat [OF assms(2)] unat_add_of_nat [OF b] le assms(3)
  show ?thesis by (simp add: word_le_nat_alt)
qed

lemma fifo_tick_counters:
  "fifo_policy_timer_tick env t = Inr t' \<Longrightarrow>
     num_faults t' = num_faults t \<and> num_loads t' = num_loads t \<and>
     length (page_table t') = length (page_table t)"
  by (simp add: fifo_policy_timer_tick_def)

text \<open>
  Claim C9, as amended: across every sequence of handler runs in which the 32-bit counter
  \<open>num_faults\<close> does not wrap around (the faults counted so far plus those of the run stay
  below \<open>2 ^ 32\<close>), started where \<open>num_loads \<le> num_faults\<close> (as after the first
  \<open>vmem_init\<close> of a process), \<open>num_faults\<close> grows by the number of faults handled and
  \<open>num_loads\<close> by the number of page loads (one completed \<open>map_page\<close> per not-mapped
  fault), both counters are non-decreasing, and \<open>num_loads \<le> num_faults\<close> at the end.
  This holds with the FIFO policy and with the CLOCK/LRU policy.
\<close>

theorem counters_without_wraparound:
  assumes "consts_ok c"
  shows "(fifo_run c s evs = Inr s' \<and> length (page_table s) = NUM_PAGES c \<and>
          num_loads s \<le> num_faults s \<and> unat (num_faults s) + count_faults evs < 2 ^ 32 \<longrightarrow>
            unat (num_faults s') = unat (num_faults s) + count_faults evs \<and>
            unat (num_loads s') = unat (num_loads s) + count_loads evs \<and>
            num_faults s \<le> num_faults s' \<and> num_loads s \<le> num_loads s' \<and>
            num_loads s' \<le> num_faults s') \<and>
         (clru_run c t evs = Inr t' \<and> length (page_table t) = NUM_PAGES c \<and>
          num_loads t \<le> num_faults t \<and> unat (num_faults t) + count_faults evs < 2 ^ 32 \<longrightarrow>
            unat (num_faults t') = unat (num_faults t) + count_faults evs \<and>
            unat (num_loads t') = unat (num_loads t) + count_loads evs \<and>
            num_faults t \<le> num_faults t' \<and> num_loads t \<le> num_loads t' \<and>
            num_loads t' \<le> num_faults t')"
proof (intro conjI impI)
  assume h: "fifo_run c s evs = Inr s' \<and> length (page_table s) = NUM_PAGES c \<and>
          num_loads s \<le> num_faults s \<and> unat (num_faults s) + count_faults evs < 2 ^ 32"
  then have "run c fifo_policy_page_mapped fifo_choose_and_evict_victim_page
               fifo_policy_timer_tick s evs = Inr s'"
    by (simp add: fifo_run_def)
  from run_counters [OF this _ fifo_tick_counters] h
  have eq: "num_faults s' = num_faults s + of_nat (count_faults evs)"
    "num_loads s' = num_loads s + of_nat (count_loads evs)"
    by simp_all
  from h counters_no_wrap [OF _ _ count_loads_le_faults, of "num_loads s" "num_faults s" evs]
  have q: "unat (num_faults s + of_nat (count_faults evs)) = unat (num_faults s) + count_faults evs \<and>
      unat (num_loads s + of_nat (count_loads evs)) = unat (num_loads s) + count_loads evs \<and>
      num_faults s \<le> num_faults s + of_nat (count_faults evs) \<and>
      num_loads s \<le> num_loads s + of_nat (count_loads evs) \<and>
      num_loads s + of_nat (count_loads evs) \<le> num_faults s + of_nat (count_faults evs)"
    by blast
  from q show "unat (num_faults s') = unat (num_faults s) + count_faults evs" by (simp add: eq)
  from q show "unat (num_loads s') = unat (num_loads s) + count_loads evs" by (simp add: eq)
  from q show "num_faults s \<le> num_faults s'" by (simp add: eq)
  from q show "num_loads s \<le> num_loads s'" by (simp add: eq)
  from q show "num_loads s' \<le> num_faults s'" by (simp add: eq)
next
  assume h: "clru_run c t evs = Inr t' \<and> length (page_table t) = NUM_PAGES c \<and>
          num_loads t \<le> num_faults t \<and> unat (num_faults t) + count_faults evs < 2 ^ 32"
  then have r: "run c clru_policy_page_mapped clru_choose_and_evict_victim_page
               (clru_policy_timer_tick c) t evs = Inr t'"
    by (simp add: clru_run_def)
  have tick: "num_faults u' = num_faults u \<and> num_loads u' = num_loads u \<and>
           length (page_table u') = length (page_table u)"
    if "clru_policy_timer_tick c env u = Inr u'" for env u u'
    using clru_policy_timer_tick_frame [OF that assms] by simp
  from run_counters [OF r _ tick] h
  have eq: "num_faults t' = num_faults t + of_nat (count_faults evs)"
    "num_loads t' = num_loads t + of_nat (count_loads evs)"
    by simp_all
  from h counters_no_wrap [OF _ _ count_loads_le_faults, of "num_loads t" "num_faults t" evs]
  have q: "unat (num_faults t + of_nat (count_faults evs)) = unat (num_faults t) + count_faults evs \<and>
      unat (num_loads t + of_nat (count_loads evs)) = unat (num_loads t) + count_loads evs \<and>
      num_faults t \<le> num_faults t + of_nat (count_faults evs) \<and>
      num_loads t \<le> num_loads t + of_nat (count_loads evs) \<and>
      num_loads t + of_nat (count_loads evs) \<le> num_faults t + of_nat (count_faults evs)"
    by blast
  from q show "unat (num_faults t') = unat (num_faults t) + count_faults evs" by (simp add: eq)
  from q show "unat (num_loads t') = unat (num_loads t) + count_loads evs" by (simp add: eq)
  from q show "num_faults t \<le> num_faults t'" by (simp add: eq)
  from q show "num_loads t \<le> num_loads t'" by (simp add: eq)
  from q show "num_loads t' \<le> num_faults t'" by (simp add: eq)
qed


theorem counters_without_wraparound_witness:
  "(case ebind (vmem_init small_consts fifo_policy_init ok_env
                  (program_start small_consts fifo_start) 2)
           (\<lambda>s. fifo_run small_consts s
              [Fault ok_env 0x20000000 SEGV_MAPERR, Fault ok_env 0x20000000 SEGV_ACCERR,
               Tick ok_env, Fault ok_env 0x20000002 SEGV_MAPERR]) of
      Inl e \<Rightarrow> False
    | Inr s' \<Rightarrow> unat (num_faults s') = 3 \<and> unat (num_loads s') = 2 \<and>
               num_loads s' \<le> num_faults s') \<and>
   (case ebind (vmem_init small_consts clru_policy_init ok_env
                  (program_start small_consts clru_start) 2)
           (\<lambda>s. clru_run small_consts s
              [Fault ok_env 0x20000000 SEGV_MAPERR, Fault ok_env 0x20000000 SEGV_ACCERR,
               Tick ok_env, Fault ok_env 0x20000002 SEGV_MAPERR]) of
      Inl e \<Rightarrow> False
    | Inr s' \<Rightarrow> unat (num_faults s') = 3 \<and> unat (num_loads s') = 2 \<and>
               num_loads s' \<le> num_faults s')"
proof -
  let ?evs = "[Fault ok_env 0x20000000 SEGV_MAPERR, Fault ok_env 0x20000000 SEGV_ACCERR,
               Tick ok_env, Fault ok_env 0x20000002 SEGV_MAPERR]"
  have cnt: "count_faults ?evs = 3" "count_loads ?evs = 2"
    by (simp_all add: count_faults_def count_loads_def SEGV_MAPERR_def SEGV_ACCERR_def)
  have "\<exists>s. vmem_init small_consts fifo_policy_init ok_env
               (program_start small_consts fifo_start) 2 = Inr s \<and>
             length (page_table s) = NUM_PAGES small_consts \<and>
             num_loads s = 0 \<and> num_faults s = 0"
    by (simp add: run_simps)
  then obtain s where i: "vmem_init small_consts fifo_policy_init ok_env
               (program_start small_consts fifo_start) 2 = Inr s"
    and f: "length (page_table s) = NUM_PAGES small_consts" "num_loads s = 0" "num_faults s = 0"
    by blast
  have "\<exists>s'. ebind (vmem_init small_consts fifo_policy_init ok_env
                  (program_start small_consts fifo_start) 2)
           (\<lambda>s. fifo_run small_consts s ?evs) = Inr s'"
    by (simp add: run_simps)
  with i obtain s' where r: "fifo_run small_consts s ?evs = Inr s'"
    by auto
  have "\<exists>t. vmem_init small_consts clru_policy_init ok_env
               (program_start small_consts clru_start) 2 = Inr t \<and>
             length (page_table t) = NUM_PAGES small_consts \<and>
             num_loads t = 0 \<and> num_faults t = 0"
    by (simp add: run_simps)
  then obtain t where j: "vmem_init small_consts clru_policy_init ok_env
               (program_start small_consts clru_start) 2 = Inr t"
    and g: "length (page_table t) = NUM_PAGES small_consts" "num_loads t = 0" "num_faults t = 0"
    by blast
  have "\<exists>t'. ebind (vmem_init small_consts clru_policy_init ok_env
                  (program_start small_consts clru_start) 2)
           (\<lambda>s. clru_run small_consts s ?evs) = Inr t'"
    by (simp add: run_simps)
  with j obtain t' where q: "clru_run small_consts t ?evs = Inr t'"
    by auto
  from counters_without_wraparound [OF consts_ok_small, of s ?evs s' t t'] r f q g cnt
  have "unat (num_faults s') = 3 \<and> unat (num_loads s') = 2 \<and> num_loads s' \<le> num_faults s'"
    and "unat (num_faults t') = 3 \<and> unat (num_loads t') = 2 \<and> num_loads t' \<le> num_faults t'"
    by simp_all
  with i r j q show ?thesis by simp
qed

lemma sigsegv_accerr_rdwr:
  assumes "consts_ok c"
    and "vmem_start s \<le> addr" and "addr < vmem_end s"
    and "(addr - vmem_start s) div PAGE_SIZE c < NUM_PAGES c"
    and "is_page_resident c s ((addr - vmem_start s) div PAGE_SIZE c) = Inr r" and "r \<noteq> 0"
    and "get_page_permission c s ((addr - vmem_start s) div PAGE_SIZE c) = Inr (PAGEPERM_RDWR c)"
  shows "sigsegv_handler c pmapped pevict env s addr SEGV_ACCERR =
           Inr (s\<lparr>num_faults := num_faults s + 1\<rparr>)"
  using assms
  by (auto simp: sigsegv_handler_def consts_ok_def addr_to_page_def Let_def
      is_page_resident_def get_page_permission_def split: if_splits)

lemma run_replicate_accerr_rdwr:
  assumes "consts_ok c"
    and "vmem_start s \<le> addr" and "addr < vmem_end s"
    and "(addr - vmem_start s) div PAGE_SIZE c < NUM_PAGES c"
    and "is_page_resident c s ((addr - vmem_start s) div PAGE_SIZE c) = Inr r" and "r \<noteq> 0"
    and "get_page_permission c s ((addr - vmem_start s) div PAGE_SIZE c) = Inr (PAGEPERM_RDWR c)"
  shows "run c pm pe pt s (replicate n (Fault env addr SEGV_ACCERR)) =
           Inr (s\<lparr>num_faults := num_faults s + of_nat n\<rparr>)"
  using assms(2-7)
proof (induction n arbitrary: s)
  case 0
  then show ?case by simp
next
  case (Suc n)
  let ?s1 = "s\<lparr>num_faults := num_faults s + 1\<rparr>"
  from sigsegv_accerr_rdwr [OF assms(1) Suc.prems]
  have h: "handle_event c pm pe pt s (Fault env addr SEGV_ACCERR) = Inr ?s1"
    by (simp add: handle_event_def)
  from Suc.prems have "run c pm pe pt ?s1 (replicate n (Fault env addr SEGV_ACCERR)) =
      Inr (?s1\<lparr>num_faults := num_faults ?s1 + of_nat n\<rparr>)"
    by (intro Suc.IH)
       (simp_all add: is_page_resident_def get_page_permission_def)
  with h show ?case by (simp add: add.assoc add.commute)
qed

lemma word32_wrap: "(4294967296 :: 32 word) = 0"
  by simp

text \<open>
  Claim C9 as stated fails: the counters are \<open>unsigned int\<close>. After initialization, one
  not-mapped fault and \<open>2 ^ 32 - 1\<close> access faults on page 0 leave \<open>num_faults = 0\<close> and
  \<open>num_loads = 1\<close>: \<open>num_faults\<close> has decreased and \<open>num_loads \<le> num_faults\<close> is false.
\<close>

theorem counters_wrap_counterexample:
  "(case ebind (vmem_init small_consts fifo_policy_init ok_env
                  (program_start small_consts fifo_start) 2)
           (\<lambda>s. fifo_run small_consts s
              ([Fault ok_env 0x20000000 SEGV_MAPERR, Fault ok_env 0x20000000 SEGV_ACCERR,
                Fault ok_env 0x20000000 SEGV_ACCERR] @
               replicate 4294967293 (Fault ok_env 0x20000000 SEGV_ACCERR))) of
      Inl e \<Rightarrow> False
    | Inr s \<Rightarrow> num_faults s = 0 \<and> num_loads s = 1 \<and> \<not> num_loads s \<le> num_faults s)"
proof -
  have "\<exists>s3. ebind (vmem_init small_consts fifo_policy_init ok_env
                  (program_start small_consts fifo_start) 2)
           (\<lambda>s. fifo_run small_consts s
              [Fault ok_env 0x20000000 SEGV_MAPERR, Fault ok_env 0x20000000 SEGV_ACCERR,
               Fault ok_env 0x20000000 SEGV_ACCERR]) = Inr s3 \<and>
           vmem_start s3 = 0x20000000 \<and> vmem_end s3 = 0x20000008 \<and>
           page_table s3 = [31, 0, 0, 0] \<and> num_faults s3 = 3 \<and> num_loads s3 = 1"
    by (simp add: run_simps)
  then obtain s3 where r: "ebind (vmem_init small_consts fifo_policy_init ok_env
                  (program_start small_consts fifo_start) 2)
           (\<lambda>s. fifo_run small_consts s
              [Fault ok_env 0x20000000 SEGV_MAPERR, Fault ok_env 0x20000000 SEGV_ACCERR,
               Fault ok_env 0x20000000 SEGV_ACCERR]) = Inr s3"
    and f: "vmem_start s3 = 0x20000000" "vmem_end s3 = 0x20000008"
      "page_table s3 = [31, 0, 0, 0]" "num_faults s3 = 3" "num_loads s3 = 1"
    by blast
  have "run small_consts fifo_policy_page_mapped fifo_choose_and_evict_victim_page
          fifo_policy_timer_tick s3
          (replicate 4294967293 (Fault ok_env 0x20000000 SEGV_ACCERR)) =
        Inr (s3\<lparr>num_faults := num_faults s3 + of_nat 4294967293\<rparr>)"
    by (rule run_replicate_accerr_rdwr [OF consts_ok_small, where r = 4])
       (simp_all add: f is_page_resident_def get_page_permission_def small_consts_def)
  with r f show ?thesis
    by (auto simp: fifo_run_def run_append ebind_eq_Inr word32_wrap)
qed

section \<open>The residency counter\<close>

subsection \<open>Counting resident pages\<close>

lemma length_filter_nth:
  "length (filter (\<lambda>p. P (xs ! p)) [0..<length xs]) = length (filter P xs)"
proof -
  have "filter P xs = filter P (map (\<lambda>p. xs ! p) [0..<length xs])"
    by (simp add: map_nth)
  also have "\<dots> = map (\<lambda>p. xs ! p) (filter (\<lambda>p. P (xs ! p)) [0..<length xs])"
    by (simp add: filter_map comp_def)
  finally show ?thesis by simp
qed

lemma count_resident_filter:
  assumes "length (page_table s) = NUM_PAGES c"
  shows "count_resident c s =
           length (filter (\<lambda>w. w AND PAGE_RESIDENT c \<noteq> 0) (page_table s))"
proof -
  have "filter (\<lambda>p. case is_page_resident c s p of Inl e \<Rightarrow> False | Inr r \<Rightarrow> r \<noteq> 0)
          [0..<NUM_PAGES c] =
        filter (\<lambda>p. page_table s ! p AND PAGE_RESIDENT c \<noteq> 0) [0..<length (page_table s)]"
    using assms by (intro filter_cong) (auto simp: is_page_resident_def)
  then show ?thesis
    by (simp add: count_resident_def
        length_filter_nth [where P = "\<lambda>w. w AND PAGE_RESIDENT c \<noteq> 0"])
qed

lemma length_filter_update:
  "i < length xs \<Longrightarrow>
     length (filter P (xs[i := v])) + (if P (xs ! i) then 1 else 0) =
     length (filter P xs) + (if P v then 1 else 0)"
proof (induction xs arbitrary: i)
  case Nil
  then show ?case by simp
next
  case (Cons x xs)
  then show ?case by (cases i) auto
qed

lemma length_filter_pointwise:
  assumes "length xs = length ys" and "\<forall>p<length xs. P (xs ! p) = P (ys ! p)"
  shows "length (filter P xs) = length (filter P ys)"
proof -
  have aux: "length (filter P zs) = length (filter id (map P zs))" for zs
    by (induction zs) simp_all
  from assms have eq: "map P xs = map P ys"
    by (intro nth_equalityI) simp_all
  have "length (filter P xs) = length (filter id (map P xs))" by (rule aux)
  also have "\<dots> = length (filter id (map P ys))" by (simp only: eq)
  also have "\<dots> = length (filter P ys)" by (rule aux [symmetric])
  finally show ?thesis .
qed

lemma resident_inv_alt:
  "resident_inv c s \<longleftrightarrow>
     length (page_table s) = NUM_PAGES c \<and>
     unat (num_resident s) =
       length (filter (\<lambda>w. w AND PAGE_RESIDENT c \<noteq> 0) (page_table s)) \<and>
     num_resident s \<le> max_resident s"
  by (auto simp: resident_inv_def count_resident_filter)

lemma NUM_PAGES_bound:
  assumes "consts_ok c"
  shows "NUM_PAGES c < 2 ^ 31"
proof -
  from assms have ps: "0 < PAGE_SIZE c" and lt: "NUM_PAGES c * PAGE_SIZE c < 2 ^ 31"
    by (simp_all add: consts_ok_def)
  from ps have "NUM_PAGES c \<le> NUM_PAGES c * PAGE_SIZE c" by simp
  from this lt show ?thesis by (rule le_less_trans)
qed

lemma resident_inv_unmap_page:
  assumes "unmap_page c env s page = Inr s'" and "resident_inv c s"
  shows "resident_inv c s'"
proof -
  from assms(2) have len: "length (page_table s) = NUM_PAGES c"
    and cnt: "unat (num_resident s) =
       length (filter (\<lambda>w. w AND PAGE_RESIDENT c \<noteq> 0) (page_table s))"
    and le: "num_resident s \<le> max_resident s"
    by (simp_all add: resident_inv_alt)
  from unmap_page_frame [OF assms(1) len]
  have f: "page < NUM_PAGES c" "num_resident s \<noteq> 0"
    "page_table s ! page AND PAGE_RESIDENT c \<noteq> 0"
    "page_table s' = (page_table s)[page := 0]"
    "num_resident s' = num_resident s - 1" "max_resident s' = max_resident s"
    by simp_all
  from f(1) len
  have "length (filter (\<lambda>w. w AND PAGE_RESIDENT c \<noteq> 0) ((page_table s)[page := 0])) +
          (if page_table s ! page AND PAGE_RESIDENT c \<noteq> 0 then 1 else 0) =
        length (filter (\<lambda>w. w AND PAGE_RESIDENT c \<noteq> 0) (page_table s)) +
          (if (0 :: 'a word) AND PAGE_RESIDENT c \<noteq> 0 then 1 else 0)"
    by (intro length_filter_update) simp
  with f(3) have c': "length (filter (\<lambda>w. w AND PAGE_RESIDENT c \<noteq> 0) (page_table s')) + 1 =
      length (filter (\<lambda>w. w AND PAGE_RESIDENT c \<noteq> 0) (page_table s))"
    by (simp add: f(4))
  from f(2) have u: "unat (num_resident s - 1) = unat (num_resident s) - 1"
    by (simp add: unat_minus_one)
  from f(2) have "num_resident s - 1 \<le> num_resident s"
    by (simp add: word_le_nat_alt u)
  with le have "num_resident s - 1 \<le> max_resident s" by simp
  with c' u cnt f len show ?thesis
    by (simp add: resident_inv_alt)
qed

lemma resident_inv_map_page:
  assumes "map_page c pm env s page perm = Inr s'" and "resident_inv c s" and "consts_ok c"
  shows "resident_inv c s'"
proof -
  from assms(2) have len: "length (page_table s) = NUM_PAGES c"
    and cnt: "unat (num_resident s) =
       length (filter (\<lambda>w. w AND PAGE_RESIDENT c \<noteq> 0) (page_table s))"
    by (simp_all add: resident_inv_alt)
  let ?X = "(PAGE_RESIDENT c AND NOT (PAGEPERM_MASK c)) OR perm"
  from map_page_frame [OF assms(1) len]
  have f: "page < NUM_PAGES c" "page_table s ! page AND PAGE_RESIDENT c = 0"
    "\<not> num_resident s + 1 > max_resident s" "?X AND PAGE_RESIDENT c \<noteq> 0"
    "page_table s' = (page_table s)[page := ?X]"
    "num_resident s' = num_resident s + 1" "max_resident s' = max_resident s"
    by simp_all
  from f(1) len
  have "length (filter (\<lambda>w. w AND PAGE_RESIDENT c \<noteq> 0) ((page_table s)[page := ?X])) +
          (if page_table s ! page AND PAGE_RESIDENT c \<noteq> 0 then 1 else 0) =
        length (filter (\<lambda>w. w AND PAGE_RESIDENT c \<noteq> 0) (page_table s)) +
          (if ?X AND PAGE_RESIDENT c \<noteq> 0 then 1 else 0)"
    by (intro length_filter_update) simp
  with f(2,4) have c': "length (filter (\<lambda>w. w AND PAGE_RESIDENT c \<noteq> 0) (page_table s')) =
      length (filter (\<lambda>w. w AND PAGE_RESIDENT c \<noteq> 0) (page_table s)) + 1"
    by (simp add: f(5))
  have "length (filter (\<lambda>w. w AND PAGE_RESIDENT c \<noteq> 0) (page_table s)) \<le> NUM_PAGES c"
    using len by (metis length_filter_le)
  with cnt NUM_PAGES_bound [OF assms(3)] have "unat (num_resident s) + 1 < 2 ^ 32"
    by simp
  then have "unat (num_resident s + of_nat 1) = unat (num_resident s) + 1"
    by (rule unat_add_of_nat)
  then have u: "unat (num_resident s + 1) = unat (num_resident s) + 1" by simp
  from f(3) have "num_resident s + 1 \<le> max_resident s" by simp
  with c' u cnt f len show ?thesis
    by (simp add: resident_inv_alt)
qed

lemma resident_inv_same_bits:
  assumes "resident_inv c s"
    and "length (page_table s') = length (page_table s)"
    and "\<forall>p<length (page_table s).
           page_table s' ! p AND PAGE_RESIDENT c = page_table s ! p AND PAGE_RESIDENT c"
    and "num_resident s' = num_resident s" and "max_resident s' = max_resident s"
  shows "resident_inv c s'"
proof -
  from assms(2,3)
  have "length (filter (\<lambda>w. w AND PAGE_RESIDENT c \<noteq> 0) (page_table s')) =
        length (filter (\<lambda>w. w AND PAGE_RESIDENT c \<noteq> 0) (page_table s))"
    by (intro length_filter_pointwise) simp_all
  with assms show ?thesis by (simp add: resident_inv_alt)
qed

lemma resident_inv_sigsegv_handler:
  assumes "sigsegv_handler c pm pe env s addr code = Inr s'"
    and "resident_inv c s" and "consts_ok c"
  shows "resident_inv c s'"
proof -
  from assms(2) have len: "length (page_table s) = NUM_PAGES c"
    by (simp add: resident_inv_def)
  from assms(3) have ok:
    "PAGEPERM_READ c AND PAGEPERM_MASK c = PAGEPERM_READ c"
    "PAGEPERM_RDWR c AND PAGEPERM_MASK c = PAGEPERM_RDWR c"
    "PAGEPERM_MASK c AND PAGE_RESIDENT c = 0"
    "PAGE_ACCESSED c AND PAGE_RESIDENT c = 0"
    "PAGE_DIRTY c AND PAGE_RESIDENT c = 0"
    by (simp_all add: consts_ok_def and.commute)
  have nf: "resident_inv c (s\<lparr>num_faults := x\<rparr>)" for x
    using assms(2) by (intro resident_inv_same_bits [OF assms(2)]) simp_all
  from assms(1) len show ?thesis
  proof (cases rule: sigsegv_handlerE)
    case (load page)
    from resident_inv_map_page [OF load(7) nf assms(3)] show ?thesis .
  next
    case (evict_load page victim p' s3)
    have "resident_inv c (s\<lparr>num_faults := num_faults s + 1, policy := p'\<rparr>)"
      by (intro resident_inv_same_bits [OF assms(2)]) simp_all
    from resident_inv_unmap_page [OF evict_load(10) this]
    have "resident_inv c s3" .
    from resident_inv_map_page [OF evict_load(11) this assms(3)] show ?thesis .
  next
    case (acc_read page old d prot)
    show ?thesis
      by (intro resident_inv_same_bits [OF assms(2)])
         (simp_all add: acc_read(5,12) len nth_list_update word_setperm_other [OF ok(1,3)]
           word_setbit_other [OF ok(4)])
  next
    case (acc_write page old d prot)
    show ?thesis
      by (intro resident_inv_same_bits [OF assms(2)])
         (simp_all add: acc_write(5,13) len nth_list_update word_setperm_other [OF ok(2,3)]
           word_setbit_other [OF ok(5)])
  next
    case (acc_other page)
    with nf show ?thesis by simp
  qed
qed

lemma clru_aged_resident:
  assumes "consts_ok c" and "clru_aged c w w'"
  shows "w' AND PAGE_RESIDENT c = w AND PAGE_RESIDENT c"
proof -
  from assms(1) have ok: "PAGEPERM_NONE c AND PAGEPERM_MASK c = PAGEPERM_NONE c"
    "PAGEPERM_MASK c AND PAGE_RESIDENT c = 0" "PAGE_ACCESSED c AND PAGE_RESIDENT c = 0"
    by (simp_all add: consts_ok_def and.commute)
  from assms(2) show ?thesis
    by (auto simp: clru_aged_def word_setperm_other [OF ok(1,2)] word_clearbit_other [OF ok(3)])
qed

lemma resident_inv_clru_tick:
  assumes "clru_policy_timer_tick c env s = Inr s'"
    and "resident_inv c s" and "consts_ok c"
  shows "resident_inv c s'"
  using clru_policy_timer_tick_frame [OF assms(1,3)] clru_aged_resident [OF assms(3)]
  by (intro resident_inv_same_bits [OF assms(2)]) simp_all

lemma resident_inv_vmem_init:
  assumes "vmem_init c pinit env s0 m = Inr s"
  shows "resident_inv c s"
proof -
  from assms have "page_table s = replicate (NUM_PAGES c) 0" and "num_resident s = 0"
    by (auto simp: vmem_init_def Let_def split: if_splits prod.splits)
  then show ?thesis by (simp add: resident_inv_alt)
qed

lemma resident_inv_fifo_run:
  assumes "fifo_run c s evs = Inr s'" and "resident_inv c s" and "consts_ok c"
  shows "resident_inv c s'"
proof -
  from assms(1) have r: "run c fifo_policy_page_mapped fifo_choose_and_evict_victim_page
      fifo_policy_timer_tick s evs = Inr s'"
    by (simp add: fifo_run_def)
  show ?thesis
  proof (rule run_invariant [OF r, where P = "resident_inv c"])
    show "resident_inv c s" by fact
  next
    fix u e u'
    assume u: "resident_inv c u"
      and h: "handle_event c fifo_policy_page_mapped fifo_choose_and_evict_victim_page
                fifo_policy_timer_tick u e = Inr u'"
    show "resident_inv c u'"
    proof (cases e)
      case (Fault env addr code)
      with h resident_inv_sigsegv_handler [OF _ u assms(3)] show ?thesis
        by (simp add: handle_event_def)
    next
      case (Tick env)
      with h u show ?thesis
        by (simp add: handle_event_def sigalrm_handler_def fifo_policy_timer_tick_def)
    qed
  qed
qed

lemma resident_inv_clru_run:
  assumes "clru_run c s evs = Inr s'" and "resident_inv c s" and "consts_ok c"
  shows "resident_inv c s'"
proof -
  from assms(1) have r: "run c clru_policy_page_mapped clru_choose_and_evict_victim_page
      (clru_policy_timer_tick c) s evs = Inr s'"
    by (simp add: clru_run_def)
  show ?thesis
  proof (rule run_invariant [OF r, where P = "resident_inv c"])
    show "resident_inv c s" by fact
  next
    fix u e u'
    assume u: "resident_inv c u"
      and h: "handle_event c clru_policy_page_mapped clru_choose_and_evict_victim_page
                (clru_policy_timer_tick c) u e = Inr u'"
    show "resident_inv c u'"
    proof (cases e)
      case (Fault env addr code)
      with h resident_inv_sigsegv_handler [OF _ u assms(3)] show ?thesis
        by (simp add: handle_event_def)
    next
      case (Tick env)
      with h resident_inv_clru_tick [OF _ u assms(3)] show ?thesis
        by (simp add: handle_event_def sigalrm_handler_def)
    qed
  qed
qed

lemma map_page_over_cap:
  assumes "page < NUM_PAGES c"
    and "perm = PAGEPERM_NONE c \<or> perm = PAGEPERM_READ c \<or> perm = PAGEPERM_RDWR c"
    and "is_page_resident c s page = Inr 0"
    and "max_resident s < num_resident s + 1"
  shows "map_page c pm env s page perm = Inl Abort"
  using assms by (simp add: map_page_def Let_def)

text \<open>
  Claim C5: after initialization and any sequence of handler runs that return (faults and
  timer ticks, with either policy), \<open>num_resident\<close> equals the number of pages whose
  resident bit is set and is at most \<open>max_resident\<close>; \<open>map_page\<close> increments
  \<open>num_resident\<close> and aborts when it then exceeds \<open>max_resident\<close>; \<open>unmap_page\<close> leaves the
  page table entry zero and \<open>num_resident\<close> decremented.
\<close>

theorem residency_invariant:
  assumes "consts_ok c"
  shows
   "(vmem_init c fifo_policy_init env0 s0 m = Inr s \<and> fifo_run c s evs = Inr s' \<longrightarrow>
       unat (num_resident s') = count_resident c s' \<and> num_resident s' \<le> max_resident s') \<and>
    (vmem_init c clru_policy_init env0 t0 m = Inr t \<and> clru_run c t evs = Inr t' \<longrightarrow>
       unat (num_resident t') = count_resident c t' \<and> num_resident t' \<le> max_resident t') \<and>
    (map_page c pmapped env s1 page perm = Inr s2 \<and> length (page_table s1) = NUM_PAGES c \<longrightarrow>
       num_resident s2 = num_resident s1 + 1 \<and> num_resident s2 \<le> max_resident s2) \<and>
    (page < NUM_PAGES c \<and>
     (perm = PAGEPERM_NONE c \<or> perm = PAGEPERM_READ c \<or> perm = PAGEPERM_RDWR c) \<and>
     is_page_resident c s1 page = Inr 0 \<and> max_resident s1 < num_resident s1 + 1 \<longrightarrow>
       map_page c pmapped env s1 page perm = Inl Abort) \<and>
    (unmap_page c env s1 victim = Inr s3 \<and> length (page_table s1) = NUM_PAGES c \<longrightarrow>
       num_resident s3 = num_resident s1 - 1 \<and> page_table s3 ! victim = 0)"
proof (intro conjI impI)
  assume h: "vmem_init c fifo_policy_init env0 s0 m = Inr s \<and> fifo_run c s evs = Inr s'"
  then have "resident_inv c s" by (blast intro: resident_inv_vmem_init)
  with h assms have i: "resident_inv c s'" by (blast intro: resident_inv_fifo_run)
  from i show "unat (num_resident s') = count_resident c s'" by (simp add: resident_inv_def)
  from i show "num_resident s' \<le> max_resident s'" by (simp add: resident_inv_def)
next
  assume h: "vmem_init c clru_policy_init env0 t0 m = Inr t \<and> clru_run c t evs = Inr t'"
  then have "resident_inv c t" by (blast intro: resident_inv_vmem_init)
  with h assms have i: "resident_inv c t'" by (blast intro: resident_inv_clru_run)
  from i show "unat (num_resident t') = count_resident c t'" by (simp add: resident_inv_def)
  from i show "num_resident t' \<le> max_resident t'" by (simp add: resident_inv_def)
next
  assume h: "map_page c pmapped env s1 page perm = Inr s2 \<and>
             length (page_table s1) = NUM_PAGES c"
  then have f: "\<not> num_resident s1 + 1 > max_resident s1"
    "num_resident s2 = num_resident s1 + 1" "max_resident s2 = max_resident s1"
    using map_page_frame [of c pmapped env s1 page perm s2] by simp_all
  from f show "num_resident s2 = num_resident s1 + 1" by simp
  from f show "num_resident s2 \<le> max_resident s2" by simp
next
  assume "page < NUM_PAGES c \<and>
     (perm = PAGEPERM_NONE c \<or> perm = PAGEPERM_READ c \<or> perm = PAGEPERM_RDWR c) \<and>
     is_page_resident c s1 page = Inr 0 \<and> max_resident s1 < num_resident s1 + 1"
  then show "map_page c pmapped env s1 page perm = Inl Abort"
    by (intro map_page_over_cap) simp_all
next
  assume h: "unmap_page c env s1 victim = Inr s3 \<and> length (page_table s1) = NUM_PAGES c"
  then have f: "victim < NUM_PAGES c" "page_table s3 = (page_table s1)[victim := 0]"
    "num_resident s3 = num_resident s1 - 1"
    using unmap_page_frame [of c env s1 victim s3] by simp_all
  from f show "num_resident s3 = num_resident s1 - 1" by simp
  from f h show "page_table s3 ! victim = 0" by simp
qed

theorem residency_invariant_witness:
  "(case ebind (vmem_init small_consts fifo_policy_init ok_env
                  (program_start small_consts fifo_start) 1)
           (\<lambda>s. fifo_run small_consts s
              [Fault ok_env 0x20000000 SEGV_MAPERR, Fault ok_env 0x20000002 SEGV_MAPERR]) of
      Inl e \<Rightarrow> False
    | Inr s' \<Rightarrow> unat (num_resident s') = count_resident small_consts s' \<and>
               num_resident s' \<le> max_resident s') \<and>
   (case ebind (vmem_init small_consts clru_policy_init ok_env
                  (program_start small_consts clru_start) 1)
           (\<lambda>s. clru_run small_consts s
              [Fault ok_env 0x20000000 SEGV_MAPERR, Fault ok_env 0x20000002 SEGV_MAPERR]) of
      Inl e \<Rightarrow> False
    | Inr s' \<Rightarrow> unat (num_resident s') = count_resident small_consts s' \<and>
               num_resident s' \<le> max_resident s') \<and>
   (case ebind (vmem_init small_consts fifo_policy_init ok_env
                  (program_start small_consts fifo_start) 1)
           (\<lambda>s. map_page small_consts fifo_policy_page_mapped ok_env s 0 0) of
      Inl e \<Rightarrow> False
    | Inr s2 \<Rightarrow>
        num_resident s2 = 1 \<and> num_resident s2 \<le> max_resident s2 \<and>
        map_page small_consts fifo_policy_page_mapped ok_env s2 1 0 = Inl Abort \<and>
        (case unmap_page small_consts ok_env s2 0 of
           Inl e \<Rightarrow> False
         | Inr s3 \<Rightarrow> num_resident s3 = 0 \<and> page_table s3 ! 0 = 0))"
proof -
  let ?evs = "[Fault ok_env 0x20000000 SEGV_MAPERR, Fault ok_env 0x20000002 SEGV_MAPERR]"
  have "\<exists>s. vmem_init small_consts fifo_policy_init ok_env
               (program_start small_consts fifo_start) 1 = Inr s \<and>
             length (page_table s) = NUM_PAGES small_consts \<and> num_resident s = 0"
    by (simp add: run_simps)
  then obtain s where i: "vmem_init small_consts fifo_policy_init ok_env
               (program_start small_consts fifo_start) 1 = Inr s"
    and f: "length (page_table s) = NUM_PAGES small_consts" "num_resident s = 0"
    by blast
  have "\<exists>s'. ebind (vmem_init small_consts fifo_policy_init ok_env
                  (program_start small_consts fifo_start) 1)
           (\<lambda>s. fifo_run small_consts s ?evs) = Inr s'"
    by (simp add: run_simps)
  with i obtain s' where r: "fifo_run small_consts s ?evs = Inr s'"
    by auto
  have "\<exists>t. vmem_init small_consts clru_policy_init ok_env
               (program_start small_consts clru_start) 1 = Inr t"
    by (simp add: run_simps)
  then obtain t where j: "vmem_init small_consts clru_policy_init ok_env
               (program_start small_consts clru_start) 1 = Inr t"
    by blast
  have "\<exists>t'. ebind (vmem_init small_consts clru_policy_init ok_env
                  (program_start small_consts clru_start) 1)
           (\<lambda>s. clru_run small_consts s ?evs) = Inr t'"
    by (simp add: run_simps)
  with j obtain t' where q: "clru_run small_consts t ?evs = Inr t'"
    by auto
  have "\<exists>s2. ebind (vmem_init small_consts fifo_policy_init ok_env
                  (program_start small_consts fifo_start) 1)
           (\<lambda>s. map_page small_consts fifo_policy_page_mapped ok_env s 0 0) = Inr s2 \<and>
           length (page_table s2) = NUM_PAGES small_consts \<and>
           is_page_resident small_consts s2 1 = Inr 0 \<and>
           max_resident s2 = 1 \<and>
           (\<exists>s3. unmap_page small_consts ok_env s2 0 = Inr s3)"
    by (simp add: run_simps)
  with i obtain s2 s3 where m: "map_page small_consts fifo_policy_page_mapped ok_env s 0 0 = Inr s2"
    and g: "length (page_table s2) = NUM_PAGES small_consts"
      "is_page_resident small_consts s2 1 = Inr 0" "max_resident s2 = 1"
    and u: "unmap_page small_consts ok_env s2 0 = Inr s3"
    by auto
  note inst = residency_invariant [OF consts_ok_small]
  from inst [where ?env0.0 = ok_env and ?s0.0 = "program_start small_consts fifo_start"
      and m = 1 and s = s and evs = ?evs and s' = s'
      and ?t0.0 = "program_start small_consts clru_start" and t = t and t' = t'
      and ?s1.0 = s and pmapped = fifo_policy_page_mapped and env = ok_env and page = 0
      and perm = 0 and ?s2.0 = s2 and victim = 0 and ?s3.0 = s3]
    i r j q m f
  have a: "unat (num_resident s') = count_resident small_consts s' \<and>
           num_resident s' \<le> max_resident s'"
    and b: "unat (num_resident t') = count_resident small_consts t' \<and>
           num_resident t' \<le> max_resident t'"
    and c: "num_resident s2 = 1 \<and> num_resident s2 \<le> max_resident s2"
    by auto
  from inst [where ?s1.0 = s2 and pmapped = fifo_policy_page_mapped and env = ok_env
      and page = 1 and perm = 0 and victim = 0 and ?s3.0 = s3] c g u
  have d: "map_page small_consts fifo_policy_page_mapped ok_env s2 1 0 = Inl Abort"
    and e: "num_resident s3 = 0 \<and> page_table s3 ! 0 = 0"
    by (simp_all add: small_consts_def)
  from a b c d e i r j q m u g(3) show ?thesis by simp
qed

section \<open>Dirty and accessed bits\<close>

lemma list_all_update:
  assumes "list_all P xs" and "P v"
  shows "list_all P (xs[i := v])"
  using assms set_update_subset_insert [of xs i v]
  by (auto simp: list_all_iff)

lemma list_all_nth: "list_all P xs \<Longrightarrow> i < length xs \<Longrightarrow> P (xs ! i)"
  by (simp add: list_all_length)

lemma consts_ok_bits:
  assumes "consts_ok c"
  shows "PAGEPERM_NONE c AND PAGEPERM_MASK c = PAGEPERM_NONE c"
    and "PAGEPERM_READ c AND PAGEPERM_MASK c = PAGEPERM_READ c"
    and "PAGEPERM_RDWR c AND PAGEPERM_MASK c = PAGEPERM_RDWR c"
    and "PAGEPERM_MASK c AND PAGE_RESIDENT c = 0"
    and "PAGEPERM_MASK c AND PAGE_ACCESSED c = 0"
    and "PAGEPERM_MASK c AND PAGE_DIRTY c = 0"
    and "PAGE_ACCESSED c AND PAGE_RESIDENT c = 0"
    and "PAGE_DIRTY c AND PAGE_RESIDENT c = 0"
    and "PAGE_DIRTY c AND PAGE_ACCESSED c = 0"
    and "PAGE_RESIDENT c AND PAGE_DIRTY c = 0"
    and "PAGE_ACCESSED c \<noteq> 0"
    and "PAGEPERM_NONE c \<noteq> PAGEPERM_READ c"
  using assms by (simp_all add: consts_ok_def and.commute)

lemma pte_tracked_zero: "pte_tracked c 0"
  by (simp add: pte_tracked_def)

lemma pte_tracked_mapped:
  assumes "consts_ok c"
    and "((PAGE_RESIDENT c AND NOT (PAGEPERM_MASK c)) OR PAGEPERM_NONE c) AND PAGE_RESIDENT c \<noteq> 0"
  shows "pte_tracked c ((PAGE_RESIDENT c AND NOT (PAGEPERM_MASK c)) OR PAGEPERM_NONE c)"
  using assms(2) word_setperm_perm [OF consts_ok_bits(1) [OF assms(1)]]
  by (simp add: pte_tracked_def)

lemma pte_clean_mapped:
  assumes "consts_ok c"
  shows "((PAGE_RESIDENT c AND NOT (PAGEPERM_MASK c)) OR PAGEPERM_NONE c) AND PAGE_DIRTY c = 0"
  using word_setperm_other [OF consts_ok_bits(1,6) [OF assms]] consts_ok_bits(10) [OF assms]
  by simp

lemma pte_read_bits:
  assumes "consts_ok c"
  shows "(((w AND NOT (PAGEPERM_MASK c)) OR PAGEPERM_READ c) OR PAGE_ACCESSED c)
           AND PAGE_ACCESSED c \<noteq> 0"
    and "(((w AND NOT (PAGEPERM_MASK c)) OR PAGEPERM_READ c) OR PAGE_ACCESSED c)
           AND PAGE_RESIDENT c = w AND PAGE_RESIDENT c"
  using consts_ok_bits [OF assms]
  by (simp_all add: word_setbit_same word_setbit_other word_setperm_other)

lemma pte_write_bits:
  assumes "consts_ok c"
  shows "(((w AND NOT (PAGEPERM_MASK c)) OR PAGEPERM_RDWR c) OR PAGE_DIRTY c)
           AND PAGE_ACCESSED c = w AND PAGE_ACCESSED c"
    and "(((w AND NOT (PAGEPERM_MASK c)) OR PAGEPERM_RDWR c) OR PAGE_DIRTY c)
           AND PAGE_RESIDENT c = w AND PAGE_RESIDENT c"
  using consts_ok_bits [OF assms]
  by (simp_all add: word_setbit_other word_setperm_other)

lemma pte_tracked_aged:
  assumes "consts_ok c" and "clru_aged c w w'" and "pte_tracked c w"
  shows "pte_tracked c w'"
proof (cases "w' = w")
  case True
  with assms(3) show ?thesis by simp
next
  case False
  with assms(2) have a: "w AND PAGE_ACCESSED c \<noteq> 0"
    and w': "w' = ((w AND NOT (PAGE_ACCESSED c)) AND NOT (PAGEPERM_MASK c)) OR PAGEPERM_NONE c"
    by (auto simp: clru_aged_def)
  from a have "w \<noteq> 0" by auto
  with assms(3) have "w AND PAGE_RESIDENT c \<noteq> 0" by (auto simp: pte_tracked_def)
  with clru_aged_resident [OF assms(1,2)] have r: "w' AND PAGE_RESIDENT c \<noteq> 0" by simp
  from w' word_setperm_perm [OF consts_ok_bits(1) [OF assms(1)]]
  have "w' AND PAGEPERM_MASK c = PAGEPERM_NONE c" by simp
  with r show ?thesis by (simp add: pte_tracked_def)
qed

lemma invs_unmap_page:
  assumes "unmap_page c env s page = Inr s'" and "access_inv c s"
  shows "access_inv c s'" and "dirty_inv c s \<Longrightarrow> dirty_inv c s'"
proof -
  from assms(2) have len: "length (page_table s) = NUM_PAGES c"
    by (simp add: access_inv_def)
  from unmap_page_frame [OF assms(1) len]
  have pt: "page_table s' = (page_table s)[page := 0]" by simp
  from assms(2) show "access_inv c s'"
    by (simp add: access_inv_def pt list_all_update pte_tracked_zero)
  show "dirty_inv c s \<Longrightarrow> dirty_inv c s'"
    by (simp add: dirty_inv_def pt list_all_update)
qed

lemma invs_map_page:
  assumes "map_page c pm env s page (PAGEPERM_NONE c) = Inr s'" and "access_inv c s"
    and "consts_ok c"
  shows "access_inv c s'" and "dirty_inv c s \<Longrightarrow> dirty_inv c s'"
proof -
  from assms(2) have len: "length (page_table s) = NUM_PAGES c"
    by (simp add: access_inv_def)
  let ?X = "(PAGE_RESIDENT c AND NOT (PAGEPERM_MASK c)) OR PAGEPERM_NONE c"
  from map_page_frame [OF assms(1) len]
  have r: "?X AND PAGE_RESIDENT c \<noteq> 0" and pt: "page_table s' = (page_table s)[page := ?X]"
    by simp_all
  from assms(2) pte_tracked_mapped [OF assms(3) r] show "access_inv c s'"
    by (simp add: access_inv_def pt list_all_update)
  from pte_clean_mapped [OF assms(3)] show "dirty_inv c s \<Longrightarrow> dirty_inv c s'"
    by (simp add: dirty_inv_def pt list_all_update)
qed

lemma invs_sigsegv_handler:
  assumes "sigsegv_handler c pm pe env s addr code = Inr s'"
    and "access_inv c s" and "consts_ok c"
  shows "access_inv c s'" and "dirty_inv c s \<Longrightarrow> dirty_inv c s'"
proof -
  from assms(2) have len: "length (page_table s) = NUM_PAGES c"
    and all: "list_all (pte_tracked c) (page_table s)"
    by (simp_all add: access_inv_def)
  have "access_inv c s' \<and> (dirty_inv c s \<longrightarrow> dirty_inv c s')"
    using assms(1) len
  proof (cases rule: sigsegv_handlerE)
    case (load page)
    have a: "access_inv c (s\<lparr>num_faults := num_faults s + 1\<rparr>)"
      using assms(2) by (simp add: access_inv_def dirty_inv_def)
    from invs_map_page [OF load(7) a assms(3)] show ?thesis by (simp add: access_inv_def dirty_inv_def)
  next
    case (evict_load page victim p' s3)
    have a: "access_inv c (s\<lparr>num_faults := num_faults s + 1, policy := p'\<rparr>)"
      using assms(2) by (simp add: access_inv_def dirty_inv_def)
    from invs_unmap_page [OF evict_load(10) a]
    have b: "access_inv c s3" and b': "dirty_inv c s \<Longrightarrow> dirty_inv c s3"
      by (simp_all add: access_inv_def dirty_inv_def)
    from invs_map_page [OF evict_load(11) b assms(3)] b' show ?thesis by blast
  next
    case (acc_read page old d prot)
    let ?Y = "((page_table s ! page AND NOT (PAGEPERM_MASK c)) OR PAGEPERM_READ c)
                OR PAGE_ACCESSED c"
    from acc_read(6) pte_read_bits [OF assms(3), of "page_table s ! page"]
    have t: "pte_tracked c ?Y" and d: "?Y AND PAGE_DIRTY c \<noteq> 0 \<longrightarrow> ?Y AND PAGE_ACCESSED c \<noteq> 0"
      by (simp_all add: pte_tracked_def)
    from t d all len show ?thesis
      by (simp add: access_inv_def dirty_inv_def acc_read(12) list_all_update)
  next
    case (acc_write page old d prot)
    let ?w = "page_table s ! page"
    let ?Z = "((?w AND NOT (PAGEPERM_MASK c)) OR PAGEPERM_RDWR c) OR PAGE_DIRTY c"
    from acc_write(5) len all have "pte_tracked c ?w" by (simp add: list_all_nth)
    with acc_write(6,7) have "?w AND PAGE_ACCESSED c \<noteq> 0" by (simp add: pte_tracked_def)
    with acc_write(6) pte_write_bits [OF assms(3), of ?w]
    have t: "pte_tracked c ?Z" and d: "?Z AND PAGE_DIRTY c \<noteq> 0 \<longrightarrow> ?Z AND PAGE_ACCESSED c \<noteq> 0"
      by (simp_all add: pte_tracked_def)
    from t d all len show ?thesis
      by (simp add: access_inv_def dirty_inv_def acc_write(13) list_all_update)
  next
    case (acc_other page)
    with assms(2) show ?thesis by (simp add: access_inv_def dirty_inv_def)
  qed
  then show "access_inv c s'" and "dirty_inv c s \<Longrightarrow> dirty_inv c s'" by simp_all
qed

lemma access_inv_clru_tick:
  assumes "clru_policy_timer_tick c env s = Inr s'" and "access_inv c s" and "consts_ok c"
  shows "access_inv c s'"
proof -
  from assms(2) have len: "length (page_table s) = NUM_PAGES c"
    and all: "list_all (pte_tracked c) (page_table s)"
    by (simp_all add: access_inv_def)
  from clru_policy_timer_tick_frame [OF assms(1,3)]
  have l': "length (page_table s') = length (page_table s)"
    and aged: "\<forall>p<length (page_table s). clru_aged c (page_table s ! p) (page_table s' ! p)"
    by simp_all
  have "list_all (pte_tracked c) (page_table s')"
    unfolding list_all_length
  proof (intro allI impI)
    fix p
    assume "p < length (page_table s')"
    with l' have p: "p < length (page_table s)" by simp
    with all have "pte_tracked c (page_table s ! p)" by (simp add: list_all_nth)
    with aged p pte_tracked_aged [OF assms(3)] show "pte_tracked c (page_table s' ! p)"
      by blast
  qed
  with l' len show ?thesis by (simp add: access_inv_def)
qed

lemma invs_vmem_init:
  assumes "vmem_init c pinit env s0 m = Inr s"
  shows "access_inv c s" and "dirty_inv c s"
proof -
  from assms
  have "page_table s = replicate (NUM_PAGES c) 0"
    by (auto simp: vmem_init_def Let_def split: if_splits prod.splits)
  then show "access_inv c s" and "dirty_inv c s"
    by (simp_all add: access_inv_def dirty_inv_def list_all_iff pte_tracked_zero)
qed


lemma invs_fifo_run:
  assumes "fifo_run c s evs = Inr s'" and "access_inv c s \<and> dirty_inv c s" and "consts_ok c"
  shows "access_inv c s' \<and> dirty_inv c s'"
proof -
  from assms(1) have r: "run c fifo_policy_page_mapped fifo_choose_and_evict_victim_page
      fifo_policy_timer_tick s evs = Inr s'"
    by (simp add: fifo_run_def)
  show ?thesis
  proof (rule run_invariant [OF r, where P = "\<lambda>s. access_inv c s \<and> dirty_inv c s"])
    show "access_inv c s \<and> dirty_inv c s" by fact
  next
    fix u e u'
    assume u: "access_inv c u \<and> dirty_inv c u"
      and h: "handle_event c fifo_policy_page_mapped fifo_choose_and_evict_victim_page
                fifo_policy_timer_tick u e = Inr u'"
    show "access_inv c u' \<and> dirty_inv c u'"
    proof (cases e)
      case (Fault env addr code)
      with h have "sigsegv_handler c fifo_policy_page_mapped fifo_choose_and_evict_victim_page
          env u addr code = Inr u'"
        by (simp add: handle_event_def)
      from invs_sigsegv_handler [OF this _ assms(3)] u show ?thesis by blast
    next
      case (Tick env)
      with h u show ?thesis
        by (simp add: handle_event_def sigalrm_handler_def fifo_policy_timer_tick_def)
    qed
  qed
qed

lemma access_inv_clru_run:
  assumes "clru_run c s evs = Inr s'" and "access_inv c s" and "consts_ok c"
  shows "access_inv c s'"
proof -
  from assms(1) have r: "run c clru_policy_page_mapped clru_choose_and_evict_victim_page
      (clru_policy_timer_tick c) s evs = Inr s'"
    by (simp add: clru_run_def)
  show ?thesis
  proof (rule run_invariant [OF r, where P = "access_inv c"])
    show "access_inv c s" by fact
  next
    fix u e u'
    assume u: "access_inv c u"
      and h: "handle_event c clru_policy_page_mapped clru_choose_and_evict_victim_page
                (clru_policy_timer_tick c) u e = Inr u'"
    show "access_inv c u'"
    proof (cases e)
      case (Fault env addr code)
      with h have "sigsegv_handler c clru_policy_page_mapped clru_choose_and_evict_victim_page
          env u addr code = Inr u'"
        by (simp add: handle_event_def)
      from invs_sigsegv_handler(1) [OF this u assms(3)] show ?thesis .
    next
      case (Tick env)
      with h access_inv_clru_tick [OF _ u assms(3)] show ?thesis
        by (simp add: handle_event_def sigalrm_handler_def)
    qed
  qed
qed

text \<open>
  Claim C1, as amended: after initialization and any sequence of handler runs that return,
  for every page \<open>p\<close>: with the FIFO policy, if the dirty bit of \<open>p\<close> is set then its
  accessed bit is set; with the CLOCK/LRU policy, whose timer tick clears the accessed bit
  and lowers the permission to \<open>PAGEPERM_NONE\<close> but leaves the dirty bit, if the dirty bit
  of \<open>p\<close> is set and the permission of \<open>p\<close> is not \<open>PAGEPERM_NONE\<close> then its accessed bit
  is set.
\<close>

theorem dirty_implies_accessed_amended:
  assumes "consts_ok c"
  shows
   "(vmem_init c fifo_policy_init env0 s0 m = Inr s \<and> fifo_run c s evs = Inr s' \<and>
     is_page_dirty c s' page = Inr d \<and> d \<noteq> 0 \<and> is_page_accessed c s' page = Inr a \<longrightarrow>
       a \<noteq> 0) \<and>
    (vmem_init c clru_policy_init env0 t0 m = Inr t \<and> clru_run c t evs = Inr t' \<and>
     is_page_dirty c t' page = Inr d \<and> d \<noteq> 0 \<and>
     get_page_permission c t' page = Inr perm \<and> perm \<noteq> PAGEPERM_NONE c \<and>
     is_page_accessed c t' page = Inr a \<longrightarrow>
       a \<noteq> 0)"
proof (intro conjI impI)
  assume h: "vmem_init c fifo_policy_init env0 s0 m = Inr s \<and> fifo_run c s evs = Inr s' \<and>
     is_page_dirty c s' page = Inr d \<and> d \<noteq> 0 \<and> is_page_accessed c s' page = Inr a"
  then have v: "vmem_init c fifo_policy_init env0 s0 m = Inr s"
    and r: "fifo_run c s evs = Inr s'"
    by simp_all
  from invs_vmem_init [OF v] have "access_inv c s \<and> dirty_inv c s" by simp
  from invs_fifo_run [OF r this assms] have i: "access_inv c s' \<and> dirty_inv c s'" .
  from h have p: "page < NUM_PAGES c" and d: "page_table s' ! page AND PAGE_DIRTY c \<noteq> 0"
    and a: "a = page_table s' ! page AND PAGE_ACCESSED c"
    by (auto simp: is_page_dirty_def is_page_accessed_def split: if_splits)
  from i p have "page_table s' ! page AND PAGE_DIRTY c \<noteq> 0 \<longrightarrow>
      page_table s' ! page AND PAGE_ACCESSED c \<noteq> 0"
    unfolding access_inv_def dirty_inv_def list_all_length by simp
  with d a show "a \<noteq> 0" by simp
next
  assume h: "vmem_init c clru_policy_init env0 t0 m = Inr t \<and> clru_run c t evs = Inr t' \<and>
     is_page_dirty c t' page = Inr d \<and> d \<noteq> 0 \<and>
     get_page_permission c t' page = Inr perm \<and> perm \<noteq> PAGEPERM_NONE c \<and>
     is_page_accessed c t' page = Inr a"
  then have v: "vmem_init c clru_policy_init env0 t0 m = Inr t"
    and r: "clru_run c t evs = Inr t'"
    by simp_all
  from access_inv_clru_run [OF r invs_vmem_init(1) [OF v] assms] have i: "access_inv c t'" .
  from h have p: "page < NUM_PAGES c" and d: "page_table t' ! page AND PAGE_DIRTY c \<noteq> 0"
    and pm: "page_table t' ! page AND PAGEPERM_MASK c \<noteq> PAGEPERM_NONE c"
    and a: "a = page_table t' ! page AND PAGE_ACCESSED c"
    by (auto simp: is_page_dirty_def is_page_accessed_def get_page_permission_def
        split: if_splits)
  from i p have tr: "pte_tracked c (page_table t' ! page)"
    unfolding access_inv_def list_all_length by simp
  from d have "page_table t' ! page \<noteq> 0" by auto
  with tr pm have "page_table t' ! page AND PAGE_ACCESSED c \<noteq> 0"
    by (auto simp: pte_tracked_def)
  with a show "a \<noteq> 0" by simp
qed

theorem dirty_implies_accessed_amended_witness:
  "(case ebind (vmem_init small_consts fifo_policy_init ok_env
                  (program_start small_consts fifo_start) 2)
           (\<lambda>s. fifo_run small_consts s
              [Fault ok_env 0x20000000 SEGV_MAPERR, Fault ok_env 0x20000000 SEGV_ACCERR,
               Fault ok_env 0x20000000 SEGV_ACCERR]) of
      Inl e \<Rightarrow> False
    | Inr s' \<Rightarrow> is_page_dirty small_consts s' 0 = Inr 16 \<and>
               (case is_page_accessed small_consts s' 0 of
                  Inl e \<Rightarrow> False | Inr a \<Rightarrow> a \<noteq> 0)) \<and>
   (case ebind (vmem_init small_consts clru_policy_init ok_env
                  (program_start small_consts clru_start) 2)
           (\<lambda>s. clru_run small_consts s
              [Fault ok_env 0x20000000 SEGV_MAPERR, Fault ok_env 0x20000000 SEGV_ACCERR,
               Fault ok_env 0x20000000 SEGV_ACCERR, Fault ok_env 0x20000002 SEGV_MAPERR,
               Tick ok_env, Fault ok_env 0x20000000 SEGV_ACCERR]) of
      Inl e \<Rightarrow> False
    | Inr t' \<Rightarrow> is_page_dirty small_consts t' 0 = Inr 16 \<and>
               get_page_permission small_consts t' 0 = Inr (PAGEPERM_READ small_consts) \<and>
               (case is_page_accessed small_consts t' 0 of
                  Inl e \<Rightarrow> False | Inr a \<Rightarrow> a \<noteq> 0))"
proof -
  let ?fevs = "[Fault ok_env 0x20000000 SEGV_MAPERR, Fault ok_env 0x20000000 SEGV_ACCERR,
               Fault ok_env 0x20000000 SEGV_ACCERR]"
  let ?cevs = "[Fault ok_env 0x20000000 SEGV_MAPERR, Fault ok_env 0x20000000 SEGV_ACCERR,
               Fault ok_env 0x20000000 SEGV_ACCERR, Fault ok_env 0x20000002 SEGV_MAPERR,
               Tick ok_env, Fault ok_env 0x20000000 SEGV_ACCERR]"
  have "\<exists>s. vmem_init small_consts fifo_policy_init ok_env
               (program_start small_consts fifo_start) 2 = Inr s"
    by (simp add: run_simps)
  then obtain s where i: "vmem_init small_consts fifo_policy_init ok_env
               (program_start small_consts fifo_start) 2 = Inr s"
    by blast
  have "\<exists>s'. ebind (vmem_init small_consts fifo_policy_init ok_env
                  (program_start small_consts fifo_start) 2)
           (\<lambda>s. fifo_run small_consts s ?fevs) = Inr s' \<and>
           is_page_dirty small_consts s' 0 = Inr 16 \<and>
           (\<exists>a. is_page_accessed small_consts s' 0 = Inr a)"
    by (simp add: run_simps)
  with i obtain s' a where r: "fifo_run small_consts s ?fevs = Inr s'"
    and f: "is_page_dirty small_consts s' 0 = Inr 16"
      "is_page_accessed small_consts s' 0 = Inr a"
    by auto
  have "\<exists>t. vmem_init small_consts clru_policy_init ok_env
               (program_start small_consts clru_start) 2 = Inr t"
    by (simp add: run_simps)
  then obtain t where j: "vmem_init small_consts clru_policy_init ok_env
               (program_start small_consts clru_start) 2 = Inr t"
    by blast
  have "\<exists>t'. ebind (vmem_init small_consts clru_policy_init ok_env
                  (program_start small_consts clru_start) 2)
           (\<lambda>s. clru_run small_consts s ?cevs) = Inr t' \<and>
           is_page_dirty small_consts t' 0 = Inr 16 \<and>
           get_page_permission small_consts t' 0 = Inr (PAGEPERM_READ small_consts) \<and>
           (\<exists>b. is_page_accessed small_consts t' 0 = Inr b)"
    by (simp add: run_simps)
  with j obtain t' b where q: "clru_run small_consts t ?cevs = Inr t'"
    and g: "is_page_dirty small_consts t' 0 = Inr 16"
      "get_page_permission small_consts t' 0 = Inr (PAGEPERM_READ small_consts)"
      "is_page_accessed small_consts t' 0 = Inr b"
    by auto
  note inst = dirty_implies_accessed_amended [OF consts_ok_small]
  from inst [where ?env0.0 = ok_env and ?s0.0 = "program_start small_consts fifo_start"
      and m = 2 and s = s and evs = ?fevs and s' = s' and page = 0 and d = 16 and a = a]
    i r f
  have a: "a \<noteq> 0" by simp
  from inst [where ?env0.0 = ok_env and ?t0.0 = "program_start small_consts clru_start"
      and m = 2 and t = t and evs = ?cevs and t' = t' and page = 0 and d = 16 and a = b
      and perm = "PAGEPERM_READ small_consts"]
    j q g
  have b: "b \<noteq> 0" by (simp add: small_consts_def)
  from a b i r f j q g show ?thesis by simp
qed

text \<open>
  Claim C1 as stated fails with the CLOCK/LRU policy: page 0 is loaded, read and written
  (dirty and accessed), page 1 is loaded, and a timer tick clears the accessed bit of page
  0 and leaves its dirty bit set.
\<close>

theorem dirty_without_accessed_counterexample:
  "(case ebind (vmem_init small_consts clru_policy_init ok_env
                  (program_start small_consts clru_start) 2)
           (\<lambda>s. clru_run small_consts s
              [Fault ok_env 0x20000000 SEGV_MAPERR, Fault ok_env 0x20000000 SEGV_ACCERR,
               Fault ok_env 0x20000000 SEGV_ACCERR, Fault ok_env 0x20000002 SEGV_MAPERR,
               Tick ok_env]) of
      Inl e \<Rightarrow> False
    | Inr s \<Rightarrow> is_page_dirty small_consts s 0 = Inr 16 \<and>
              is_page_accessed small_consts s 0 = Inr 0)"
  by (simp add: run_simps)

end
